theory Spec2Isabelle
  imports Main "HOL-Library.Word" "HOL-Library.AList"
begin

section \<open>Python values and exceptions\<close>

text \<open>
  The simulator is Python: its integers are unbounded (\<open>int\<close>), a \<open>bytes\<close> object is a
  list of octets, a \<open>dict\<close> keeps its keys in insertion order (an association list with
  distinct keys, \<open>AList.update\<close> for \<open>d[k] = v\<close>), and an exception is a value of
  \<open>error\<close>.  \<open>datetime.datetime.now()\<close> has microsecond resolution, so a clock reading
  is an \<open>int\<close> counting microseconds, handed to every operation that reads the clock.
\<close>

type_synonym byte = "8 word"

datatype error = KeyError | TypeError | AttributeError | StructError | ConfigError

subsection \<open>\<open>struct.pack\<close> and \<open>struct.unpack\<close> in network byte order\<close>

text \<open>
  A format string with the prefix \<open>!\<close> has no padding; it is modelled by the list of its
  field widths in bytes (\<open>B\<close> is 1, \<open>H\<close> is 2, \<open>I\<close> is 4).  All fields are unsigned
  and big-endian.  \<open>struct.pack\<close> raises \<open>struct.error\<close> when a value does not fit its
  field, \<open>struct.unpack\<close> when the buffer has not exactly the size of the format.
\<close>

fun be_bytes :: "nat \<Rightarrow> int \<Rightarrow> byte list" where
  "be_bytes 0 v = []"
| "be_bytes (Suc n) v = be_bytes n (v div 256) @ [word_of_int v]"

fun be_int :: "int \<Rightarrow> byte list \<Rightarrow> int" where
  "be_int acc [] = acc"
| "be_int acc (b # bs) = be_int (acc * 256 + uint b) bs"

definition calcsize :: "nat list \<Rightarrow> nat" where
  "calcsize fmt = sum_list fmt"

fun pack_fields :: "nat list \<Rightarrow> int list \<Rightarrow> error + byte list" where
  "pack_fields [] [] = Inr []"
| "pack_fields (n # ns) (v # vs) =
     (if 0 \<le> v \<and> v < 256 ^ n
      then (case pack_fields ns vs of
              Inl e \<Rightarrow> Inl e
            | Inr bs \<Rightarrow> Inr (be_bytes n v @ bs))
      else Inl StructError)"
| "pack_fields _ _ = Inl StructError"

fun unpack_fields :: "nat list \<Rightarrow> byte list \<Rightarrow> int list" where
  "unpack_fields [] bs = []"
| "unpack_fields (n # ns) bs = be_int 0 (take n bs) # unpack_fields ns (drop n bs)"

definition struct_unpack :: "nat list \<Rightarrow> byte list \<Rightarrow> error + int list" where
  "struct_unpack fmt bs =
     (if length bs = calcsize fmt then Inr (unpack_fields fmt bs) else Inl StructError)"

text \<open>A slice \<open>data[i:j]\<close> with \<open>0 \<le> i\<close>, \<open>0 \<le> j\<close>: it is cut short at the end of the data.\<close>

definition slice :: "nat \<Rightarrow> nat \<Rightarrow> 'a list \<Rightarrow> 'a list" where
  "slice i j xs = take (j - i) (drop i xs)"

section \<open>packet.py\<close>

subsection \<open>Header\<close>

text \<open>
  \<open>Header.__init__\<close> sets \<open>cmd\<close>, \<open>ver\<close> and \<open>src\<close> only when it is given non-empty
  raw data or a truthy router id.  \<open>Header(router_id=0)\<close> is an object without these
  attributes: \<open>Blank_header\<close>; reading an attribute of it raises \<open>AttributeError\<close>.
\<close>

datatype header = Header (cmd: int) (ver: int) (src: int) | Blank_header

definition HEADER_FORMAT :: "nat list" where
  "HEADER_FORMAT = [1, 1, 2]"

definition HEADER_SIZE :: nat where
  "HEADER_SIZE = calcsize HEADER_FORMAT"

definition COMMAND_RESPONSE :: int where
  "COMMAND_RESPONSE = 2"

definition VERSION :: int where
  "VERSION = 2"

definition Header_from_network :: "byte list \<Rightarrow> error + header" where
  "Header_from_network raw_data =
     (case struct_unpack HEADER_FORMAT raw_data of
        Inl e \<Rightarrow> Inl e
      | Inr fs \<Rightarrow> (case fs of [c, v, s] \<Rightarrow> Inr (Header c v s) | _ \<Rightarrow> Inl StructError))"

definition Header_from_host :: "int \<Rightarrow> header" where
  "Header_from_host router_id = Header COMMAND_RESPONSE VERSION router_id"

text \<open>\<open>Header(raw_data, router_id)\<close>; an absent argument is \<open>None\<close>.\<close>

definition Header_init :: "byte list option \<Rightarrow> int option \<Rightarrow> error + header" where
  "Header_init raw_data router_id =
     (if raw_data \<noteq> None \<and> raw_data \<noteq> Some []
      then Header_from_network (the raw_data)
      else if router_id \<noteq> None \<and> router_id \<noteq> Some 0
      then Inr (Header_from_host (the router_id))
      else Inr Blank_header)"

definition Header_serialize :: "header \<Rightarrow> error + byte list" where
  "Header_serialize h =
     (case h of
        Blank_header \<Rightarrow> Inl AttributeError
      | Header c v s \<Rightarrow> pack_fields HEADER_FORMAT [c, v, s])"

subsection \<open>RTE\<close>

text \<open>
  The six wire fields and the four bookkeeping attributes of an \<open>RTE\<close> object.
  \<open>timeout\<close> is \<open>None\<close> for an imported entry and a clock reading otherwise.
\<close>

record rte =
  afi :: int
  tag :: int
  addr :: int
  mask :: int
  next_hop :: int
  metric :: int
  changed :: bool
  imported :: bool
  timeout :: "int option"
  is_garbage :: bool

definition AF_INET :: int where
  "AF_INET = 2"

definition RTE_FORMAT :: "nat list" where
  "RTE_FORMAT = [2, 2, 4, 4, 4, 4]"

definition RTE_SIZE :: nat where
  "RTE_SIZE = calcsize RTE_FORMAT"

definition MIN_METRIC :: int where
  "MIN_METRIC = 0"

definition MAX_METRIC :: int where
  "MAX_METRIC = 16"

definition init_timeout :: "int \<Rightarrow> rte \<Rightarrow> rte" where
  "init_timeout now self =
     self\<lparr>timeout := (if imported self then None else Some now), is_garbage := False\<rparr>"

text \<open>
  The first three statements of \<open>RTE.__init__\<close>.  The wire fields do not exist yet at
  that point; the \<open>0\<close>s stand for them and are overwritten by \<open>RTE_from_network\<close> or
  \<open>RTE_from_host\<close> before anything reads them.
\<close>

definition RTE_new :: "int \<Rightarrow> bool \<Rightarrow> rte" where
  "RTE_new now imp =
     init_timeout now
       \<lparr>afi = 0, tag = 0, addr = 0, mask = 0, next_hop = 0, metric = 0,
        changed = False, imported = imp, timeout = None, is_garbage = False\<rparr>"

definition RTE_from_network :: "rte \<Rightarrow> byte list \<Rightarrow> int \<Rightarrow> error + rte" where
  "RTE_from_network self raw_data src_id =
     (case struct_unpack RTE_FORMAT raw_data of
        Inl e \<Rightarrow> Inl e
      | Inr fs \<Rightarrow>
          (case fs of
             [a, t, ad, m, nh, me] \<Rightarrow>
               Inr (self\<lparr>afi := a, tag := t, addr := ad, mask := m,
                         next_hop := (if nh = 0 then src_id else nh), metric := me\<rparr>)
           | _ \<Rightarrow> Inl StructError))"

definition RTE_from_host :: "rte \<Rightarrow> int \<Rightarrow> int \<Rightarrow> int \<Rightarrow> rte" where
  "RTE_from_host self address nh m =
     self\<lparr>afi := AF_INET, tag := 0, addr := address, mask := 0, next_hop := nh, metric := m\<rparr>"

text \<open>
  \<open>RTE(raw_data=d, src_id=s)\<close> as \<open>Packet._from_network\<close> calls it, with \<open>s\<close> an
  integer.  For an empty \<open>d\<close> Python would take the other branch of \<open>__init__\<close> and build
  an entry whose fields are all \<open>None\<close>; the decoder never passes an empty slice (every slice
  it takes has 20 bytes, see \<open>parse_rtes_ok\<close> and \<open>decode_ok\<close>), and the model answers \<open>StructError\<close> there.
\<close>

definition RTE_network :: "int \<Rightarrow> byte list \<Rightarrow> int \<Rightarrow> error + rte" where
  "RTE_network now raw_data src_id =
     (if raw_data \<noteq> [] then RTE_from_network (RTE_new now False) raw_data src_id
      else Inl StructError)"

text \<open>\<open>RTE(address=a, next_hop=n, metric=m, imported=i)\<close>, with no raw data.\<close>

definition RTE_host :: "int \<Rightarrow> int \<Rightarrow> int \<Rightarrow> int \<Rightarrow> bool \<Rightarrow> rte" where
  "RTE_host now address nh m imp = RTE_from_host (RTE_new now imp) address nh m"

text \<open>\<open>RTE.__eq__\<close>: the six wire fields.\<close>

definition RTE_eq :: "rte \<Rightarrow> rte \<Rightarrow> bool" where
  "RTE_eq self other \<longleftrightarrow>
     afi self = afi other \<and> addr self = addr other \<and> mask self = mask other \<and>
     tag self = tag other \<and> next_hop self = next_hop other \<and> metric self = metric other"

definition RTE_serialize :: "rte \<Rightarrow> error + byte list" where
  "RTE_serialize self =
     pack_fields RTE_FORMAT
       [afi self, tag self, addr self, mask self, next_hop self, metric self]"

definition set_next_hop :: "int \<Rightarrow> rte \<Rightarrow> rte" where
  "set_next_hop nh self = self\<lparr>next_hop := nh\<rparr>"

subsection \<open>Packet\<close>

text \<open>
  \<open>Packet(data=b'')\<close> takes the branch \<open>_from_host(None, None)\<close>, so both attributes
  of a packet can be \<open>None\<close>.
\<close>

record packet =
  header :: "header option"
  rtes :: "rte list option"

text \<open>
  \<open>int((datalen - Header.SIZE) / RTE.SIZE)\<close>: a float division, truncated towards zero.
  \<open>recvfrom(1024)\<close> hands over at most 1024 bytes, and for such lengths the float
  quotient truncates to the integer quotient.
\<close>

definition rte_count :: "nat \<Rightarrow> int" where
  "rte_count datalen =
     (let d = int datalen - int HEADER_SIZE
      in if 0 \<le> d then d div int RTE_SIZE else - ((- d) div int RTE_SIZE))"

text \<open>
  The loop \<open>for _ in range(rte_count)\<close>, with \<open>rte_start\<close> as loop state
  (\<open>rte_end\<close> is always \<open>rte_start + RTE.SIZE\<close>).
\<close>

fun parse_rtes :: "int \<Rightarrow> byte list \<Rightarrow> int \<Rightarrow> nat \<Rightarrow> nat \<Rightarrow> error + rte list" where
  "parse_rtes now data src_id 0 rte_start = Inr []"
| "parse_rtes now data src_id (Suc n) rte_start =
     (case RTE_network now (slice rte_start (rte_start + RTE_SIZE) data) src_id of
        Inl e \<Rightarrow> Inl e
      | Inr r \<Rightarrow>
          (case parse_rtes now data src_id n (rte_start + RTE_SIZE) of
             Inl e \<Rightarrow> Inl e
           | Inr rs \<Rightarrow> Inr (r # rs)))"

text \<open>
  \<open>Packet._from_network\<close>.  The header is built from \<open>data[0:4]\<close>; the loop reads
  \<open>self.header.src\<close> in each pass, which raises \<open>AttributeError\<close> if the header has
  no attributes.
\<close>

definition Packet_from_network :: "int \<Rightarrow> byte list \<Rightarrow> error + packet" where
  "Packet_from_network now data =
     (case Header_init (Some (slice 0 HEADER_SIZE data)) None of
        Inl e \<Rightarrow> Inl e
      | Inr h \<Rightarrow>
          (case h of
             Blank_header \<Rightarrow>
               if nat (rte_count (length data)) = 0
               then Inr \<lparr>header = Some h, rtes = Some []\<rparr>
               else Inl AttributeError
           | Header c v s \<Rightarrow>
               (case parse_rtes now data s (nat (rte_count (length data))) HEADER_SIZE of
                  Inl e \<Rightarrow> Inl e
                | Inr rs \<Rightarrow> Inr \<lparr>header = Some h, rtes = Some rs\<rparr>)))"

definition Packet_from_host :: "header option \<Rightarrow> rte list option \<Rightarrow> packet" where
  "Packet_from_host h rs = \<lparr>header = h, rtes = rs\<rparr>"

definition Packet_init ::
  "int \<Rightarrow> byte list option \<Rightarrow> header option \<Rightarrow> rte list option \<Rightarrow> error + packet" where
  "Packet_init now data h rs =
     (if data \<noteq> None \<and> data \<noteq> Some [] then Packet_from_network now (the data)
      else Inr (Packet_from_host h rs))"

fun serialize_rtes :: "byte list \<Rightarrow> rte list \<Rightarrow> error + byte list" where
  "serialize_rtes pkt [] = Inr pkt"
| "serialize_rtes pkt (r # rs) =
     (case RTE_serialize r of
        Inl e \<Rightarrow> Inl e
      | Inr bs \<Rightarrow> serialize_rtes (pkt @ bs) rs)"

definition Packet_serialize :: "packet \<Rightarrow> error + byte list" where
  "Packet_serialize self =
     (case header self of
        None \<Rightarrow> Inl AttributeError
      | Some h \<Rightarrow>
          (case Header_serialize h of
             Inl e \<Rightarrow> Inl e
           | Inr pkt \<Rightarrow>
               (case rtes self of
                  None \<Rightarrow> Inl TypeError
                | Some rs \<Rightarrow> serialize_rtes pkt rs)))"

section \<open>router.py\<close>

subsection \<open>State\<close>

text \<open>
  \<open>Output\<close> and \<open>RouterConfig\<close> are the configuration objects; \<open>link\<close> is the value
  \<open>{'port': p, 'metric': m}\<close> stored in \<open>Router.outputs\<close>.
\<close>

record Output =
  output_id :: int
  output_port :: int
  output_metric :: int

record RouterConfig =
  config_id :: int
  config_inputs_of :: "int list"
  config_outputs_of :: "Output list"

record link =
  link_port :: int
  link_metric :: int

text \<open>
  What a \<open>threading.Timer\<close> can be asked to call: \<open>self.timer(function, param)\<close> for one
  of the three recurring functions, or \<open>self.update(rtes)\<close> directly.
\<close>

datatype task = Update_table | Check_timeout | Check_is_garbage

datatype callback = Call_timer task | Call_update "rte list"

type_synonym row = "int \<times> int \<times> int \<times> bool \<times> bool"

text \<open>
  The attributes of a \<open>Router\<close>.  \<open>router_id\<close> is \<open>self.id\<close> and \<open>table_changed\<close> is
  \<open>self.changed\<close>.  \<open>inputs\<close> keeps the keys of the \<open>inputs\<close> dictionary (the ports);
  the sockets themselves are not modelled.  The effects on the outside are recorded in
  three lists: \<open>log\<close>, one list of rows (destination, metric, next hop, is changed, is
  garbage) for each table written to the log file; \<open>sent\<close>, one pair of destination port
  and payload for each \<open>sendto\<close>; \<open>armed\<close>, one pair of delay in seconds and callback
  for each timer that was started.
\<close>

record router =
  router_id :: int
  inputs :: "int list"
  outputs :: "(int \<times> link) list"
  routing_table :: "(int \<times> rte) list"
  table_changed :: bool
  end_life :: bool
  log :: "row list list"
  sent :: "(int \<times> byte list) list"
  armed :: "(int \<times> callback) list"

text \<open>
  A method of the router either returns (\<open>Inr\<close>, with the state it leaves) or raises
  (\<open>Inl\<close>, with the exception and the state at the moment of raising: what was mutated
  before stays mutated).
\<close>

type_synonym outcome = "(error \<times> router) + router"

fun state_of :: "outcome \<Rightarrow> router" where
  "state_of (Inl (e, r)) = r"
| "state_of (Inr r) = r"

definition TIMER :: int where
  "TIMER = 5"

definition ROUTE_TIMEOUT :: int where
  "ROUTE_TIMEOUT = TIMER * 6"

definition DELETE_TIMEOUT :: int where
  "DELETE_TIMEOUT = TIMER * 6"

text \<open>
  \<open>(datetime.datetime.now() - t).total_seconds() >= s\<close> for an integer \<open>s\<close>: the
  difference of two clock readings is a whole number of microseconds.
\<close>

definition total_seconds_ge :: "int \<Rightarrow> int \<Rightarrow> bool" where
  "total_seconds_ge delta s \<longleftrightarrow> s * 1000000 \<le> delta"

text \<open>
  An entry of the table is an object, mutated in place through a reference.  A reference
  to the entry stored under key \<open>k\<close> is modelled by \<open>k\<close>, and the mutation by \<open>modify\<close>.
\<close>

definition modify :: "int \<Rightarrow> (rte \<Rightarrow> rte) \<Rightarrow> router \<Rightarrow> router" where
  "modify k f r =
     r\<lparr>routing_table := map (\<lambda>(k', e). if k' = k then (k', f e) else (k', e)) (routing_table r)\<rparr>"

subsection \<open>Logging\<close>

definition row_of :: "rte \<Rightarrow> row" where
  "row_of e = (addr e, metric e, next_hop e, changed e, is_garbage e)"

text \<open>
  \<open>log_routing_table\<close>: the row of the router's own entry (\<open>KeyError\<close> if there is
  none), then the rows of all other entries in table order.  The ruled lines of the text
  are left out, and the log file is taken to be open.
\<close>

definition log_routing_table :: "router \<Rightarrow> outcome" where
  "log_routing_table r =
     (case map_of (routing_table r) (router_id r) of
        None \<Rightarrow> Inl (KeyError, r)
      | Some own \<Rightarrow>
          Inr (r\<lparr>log := log r @
                 [row_of own #
                  map (\<lambda>(k, e). row_of e)
                    (filter (\<lambda>(k, e). k \<noteq> router_id r) (routing_table r))]\<rparr>))"

subsection \<open>Construction\<close>

fun config_outputs :: "Output list \<Rightarrow> router \<Rightarrow> outcome" where
  "config_outputs [] r = Inr r"
| "config_outputs (output # rest) r =
     (if \<not> (1 \<le> output_metric output \<and> output_metric output \<le> 16) \<or>
         \<not> (1024 \<le> output_port output \<and> output_port output \<le> 49151)
      then Inl (ConfigError, r)
      else config_outputs rest
             (r\<lparr>outputs := AList.update (output_id output)
                   \<lparr>link_port = output_port output, link_metric = output_metric output\<rparr>
                   (outputs r)\<rparr>))"

text \<open>
  \<open>config_inputs\<close> opens one socket for each port and stores it under the port; a port
  given twice keeps its place.  Binding is taken to succeed.
\<close>

fun config_inputs :: "int list \<Rightarrow> router \<Rightarrow> router" where
  "config_inputs [] r = r"
| "config_inputs (port # rest) r =
     config_inputs rest
       (r\<lparr>inputs := (if port \<in> set (inputs r) then inputs r else inputs r @ [port])\<rparr>)"

definition Router_init :: "int \<Rightarrow> RouterConfig \<Rightarrow> outcome" where
  "Router_init now config =
     (let r = \<lparr>router_id = config_id config, inputs = [], outputs = [], routing_table = [],
               table_changed = False, end_life = False, log = [], sent = [], armed = []\<rparr>;
          r = config_inputs (config_inputs_of config) r
      in case config_outputs (config_outputs_of config) r of
           Inl x \<Rightarrow> Inl x
         | Inr r \<Rightarrow>
             log_routing_table
               (r\<lparr>routing_table :=
                    AList.update (router_id r) (RTE_host now (router_id r) 0 0 True)
                      (routing_table r)\<rparr>))"

subsection \<open>The receive path\<close>

definition update_route :: "int \<Rightarrow> int \<Rightarrow> rte \<Rightarrow> router \<Rightarrow> router" where
  "update_route now current_rte rte r =
     (modify current_rte
        (\<lambda>c. (init_timeout now c)
                \<lparr>is_garbage := False, changed := True,
                 metric := metric rte, next_hop := next_hop rte\<rparr>) r)
       \<lparr>table_changed := True\<rparr>"

text \<open>
  One pass through the body of the loop of \<open>update_routing_table\<close> ends in one of three
  ways: the loop goes on with the next RTE, the method returns, or an exception is raised.
\<close>

datatype flow = Continue router | Return router | Raise error router

definition update_rte :: "int \<Rightarrow> header option \<Rightarrow> rte \<Rightarrow> router \<Rightarrow> flow" where
  "update_rte now h rte r =
     (if addr rte \<noteq> router_id r then
        (let current_rte = map_of (routing_table r) (addr rte)
         in case h of
              None \<Rightarrow> Raise AttributeError r
            | Some Blank_header \<Rightarrow> Raise AttributeError r
            | Some (Header c v s) \<Rightarrow>
                (let rte = set_next_hop s rte
                 in case map_of (outputs r) s of
                      None \<Rightarrow> Raise KeyError r
                    | Some l \<Rightarrow>
                        (let rte = rte\<lparr>metric := min (metric rte + link_metric l) MAX_METRIC\<rparr>
                         in case current_rte of
                              None \<Rightarrow>
                                if metric rte = MAX_METRIC then Return r
                                else Return
                                  (r\<lparr>table_changed := True,
                                     routing_table :=
                                       AList.update (addr rte) (rte\<lparr>changed := True\<rparr>)
                                         (routing_table r)\<rparr>)
                            | Some c \<Rightarrow>
                                if next_hop rte = next_hop c then
                                  if metric c \<noteq> metric rte \<and> MAX_METRIC \<le> metric rte then
                                    Continue
                                      ((modify (addr rte)
                                          (\<lambda>c. c\<lparr>metric := MAX_METRIC, is_garbage := True,
                                                  changed := True\<rparr>) r)
                                         \<lparr>table_changed := True\<rparr>)
                                  else if metric c \<noteq> metric rte then
                                    Continue (update_route now (addr rte) rte r)
                                  else if \<not> is_garbage c then
                                    Continue (modify (addr rte) (init_timeout now) r)
                                  else Continue r
                                else if metric rte < metric c then
                                  Continue (update_route now (addr rte) rte r)
                                else Continue r)))
      else Continue r)"

fun update_rtes :: "int \<Rightarrow> header option \<Rightarrow> rte list \<Rightarrow> router \<Rightarrow> outcome" where
  "update_rtes now h [] r = Inr r"
| "update_rtes now h (rte # rest) r =
     (case update_rte now h rte r of
        Continue r' \<Rightarrow> update_rtes now h rest r'
      | Return r' \<Rightarrow> Inr r'
      | Raise e r' \<Rightarrow> Inl (e, r'))"

definition update_routing_table :: "int \<Rightarrow> packet \<Rightarrow> router \<Rightarrow> outcome" where
  "update_routing_table now packet r =
     (case rtes packet of
        None \<Rightarrow> Inl (TypeError, r)
      | Some rs \<Rightarrow> update_rtes now (header packet) rs r)"

text \<open>
  The first loop of \<open>handle_inputs\<close>.  Each readable port yields one datagram; it is
  paired with the clock reading at the time it is decoded and processed.
\<close>

fun receive_all :: "(int \<times> byte list) list \<Rightarrow> router \<Rightarrow> outcome" where
  "receive_all [] r = Inr r"
| "receive_all ((now, data) # ports) r =
     (case Packet_init now (Some data) None None of
        Inl e \<Rightarrow> Inl (e, r)
      | Inr packet \<Rightarrow>
          (case update_routing_table now packet r of
             Inl x \<Rightarrow> Inl x
           | Inr r' \<Rightarrow> receive_all ports r'))"

text \<open>
  The loop that fills \<open>changed_rtes\<close>: the entries whose flag is set, in table order,
  each with its flag cleared (the list holds the objects of the table, and the flag of
  each is cleared as it is appended), and the table after the loop.
\<close>

definition collect_changed :: "(int \<times> rte) list \<Rightarrow> rte list \<times> (int \<times> rte) list" where
  "collect_changed table =
     (map (\<lambda>(k, e). e\<lparr>changed := False\<rparr>) (filter (\<lambda>(k, e). changed e) table),
      map (\<lambda>(k, e). if changed e then (k, e\<lparr>changed := False\<rparr>) else (k, e)) table)"

text \<open>
  \<open>threading.Timer(delay, function, args)\<close> builds a timer object; only its method
  \<open>start\<close> arms it.
\<close>

definition Timer :: "int \<Rightarrow> callback \<Rightarrow> int \<times> callback" where
  "Timer delay f = (delay, f)"

definition start :: "int \<times> callback \<Rightarrow> router \<Rightarrow> router" where
  "start t r = r\<lparr>armed := armed r @ [t]\<rparr>"

definition handle_inputs :: "(int \<times> byte list) list \<Rightarrow> router \<Rightarrow> outcome" where
  "handle_inputs readable_ports r =
     (case receive_all readable_ports r of
        Inl x \<Rightarrow> Inl x
      | Inr r \<Rightarrow>
          if table_changed r then
            (case log_routing_table r of
               Inl x \<Rightarrow> Inl x
             | Inr r \<Rightarrow>
                 (let (changed_rtes, table) = collect_changed (routing_table r);
                      r = r\<lparr>routing_table := table, table_changed := False\<rparr>;
                      delay = 2;
                      t = Timer delay (Call_update changed_rtes)
                  in Inr r))
          else Inr r)"

subsection \<open>The emit path\<close>

text \<open>
  The inner loop of \<open>update\<close>: the list \<open>validated_rtes\<close> built for one output.
  \<open>rtes_param\<close> is the parameter \<open>rtes\<close> of \<open>update\<close>.
\<close>

definition validated_rtes :: "int \<Rightarrow> int \<Rightarrow> rte list \<Rightarrow> rte list" where
  "validated_rtes now output rtes_param =
     map (\<lambda>entry. if next_hop entry \<noteq> output then entry
                  else RTE_host now (addr entry) (next_hop entry) MAX_METRIC (imported entry))
       rtes_param"

fun send_outputs :: "int \<Rightarrow> header \<Rightarrow> rte list \<Rightarrow> (int \<times> link) list \<Rightarrow> router \<Rightarrow> outcome" where
  "send_outputs now local_header rtes_param [] r = Inr r"
| "send_outputs now local_header rtes_param ((output, l) # rest) r =
     (case Packet_init now None (Some local_header) (Some (validated_rtes now output rtes_param)) of
        Inl e \<Rightarrow> Inl (e, r)
      | Inr packet \<Rightarrow>
          (case Packet_serialize packet of
             Inl e \<Rightarrow> Inl (e, r)
           | Inr bs \<Rightarrow>
               send_outputs now local_header rtes_param rest
                 (r\<lparr>sent := sent r @ [(link_port l, bs)]\<rparr>)))"

definition update :: "int \<Rightarrow> rte list \<Rightarrow> router \<Rightarrow> outcome" where
  "update now rtes_param r =
     (if inputs r \<noteq> [] then
        (case Header_init None (Some (router_id r)) of
           Inl e \<Rightarrow> Inl (e, r)
         | Inr local_header \<Rightarrow> send_outputs now local_header rtes_param (outputs r) r)
      else Inr r)"

subsection \<open>Timers\<close>

text \<open>
  The loop of \<open>check_timeout\<close> over the entries of the table, each reached through its
  key.  The table is logged inside the loop, once for every entry that times out.
\<close>

fun check_timeout_loop :: "int \<Rightarrow> int list \<Rightarrow> router \<Rightarrow> outcome" where
  "check_timeout_loop now [] r = Inr r"
| "check_timeout_loop now (k # ks) r =
     (case map_of (routing_table r) k of
        None \<Rightarrow> check_timeout_loop now ks r
      | Some rte \<Rightarrow>
          if timeout rte \<noteq> None \<and> total_seconds_ge (now - the (timeout rte)) ROUTE_TIMEOUT
          then
            (case log_routing_table
                    ((modify k (\<lambda>e. e\<lparr>is_garbage := True, changed := True,
                                       metric := MAX_METRIC, timeout := Some now\<rparr>) r)
                       \<lparr>table_changed := True\<rparr>) of
               Inl x \<Rightarrow> Inl x
             | Inr r' \<Rightarrow> check_timeout_loop now ks r')
          else check_timeout_loop now ks r)"

definition check_timeout :: "int \<Rightarrow> router \<Rightarrow> outcome" where
  "check_timeout now r =
     (if routing_table r \<noteq> [] then check_timeout_loop now (map fst (routing_table r)) r
      else Inr r)"

text \<open>
  The first loop of \<open>check_is_garbage\<close>.  \<open>now - rte.timeout\<close> raises \<open>TypeError\<close> for
  a garbage entry whose timeout is \<open>None\<close>.
\<close>

fun to_delete :: "int \<Rightarrow> rte list \<Rightarrow> error + int list" where
  "to_delete now [] = Inr []"
| "to_delete now (rte # rest) =
     (if is_garbage rte then
        (case timeout rte of
           None \<Rightarrow> Inl TypeError
         | Some t \<Rightarrow>
             (case to_delete now rest of
                Inl e \<Rightarrow> Inl e
              | Inr ds \<Rightarrow>
                  Inr (if total_seconds_ge (now - t) DELETE_TIMEOUT then addr rte # ds else ds)))
      else to_delete now rest)"

fun delete_entries :: "int list \<Rightarrow> router \<Rightarrow> outcome" where
  "delete_entries [] r = Inr r"
| "delete_entries (entry # rest) r =
     (if entry \<in> fst ` set (routing_table r)
      then delete_entries rest (r\<lparr>routing_table := AList.delete entry (routing_table r)\<rparr>)
      else Inl (KeyError, r))"

definition check_is_garbage :: "int \<Rightarrow> router \<Rightarrow> outcome" where
  "check_is_garbage now r =
     (if routing_table r \<noteq> [] then
        (case to_delete now (map snd (routing_table r)) of
           Inl e \<Rightarrow> Inl (e, r)
         | Inr ds \<Rightarrow>
             (case delete_entries ds r of
                Inl x \<Rightarrow> Inl x
              | Inr r' \<Rightarrow> if 0 < length ds then log_routing_table r' else Inr r'))
      else Inr r)"

text \<open>
  \<open>timer(function, param)\<close>: \<open>Update_table\<close> is \<open>self.update\<close> with
  \<open>param = self.routing_table\<close>, called on \<open>list(param.values())\<close>.
\<close>

definition run_task :: "int \<Rightarrow> task \<Rightarrow> router \<Rightarrow> outcome" where
  "run_task now f r =
     (case f of
        Update_table \<Rightarrow> update now (map snd (routing_table r)) r
      | Check_timeout \<Rightarrow> check_timeout now r
      | Check_is_garbage \<Rightarrow> check_is_garbage now r)"

definition timer :: "int \<Rightarrow> task \<Rightarrow> router \<Rightarrow> outcome" where
  "timer now f r =
     (if end_life r then Inr r
      else (case run_task now f r of
              Inl x \<Rightarrow> Inl x
            | Inr r' \<Rightarrow> Inr (start (Timer TIMER (Call_timer f)) r')))"

definition config_timers :: "int \<Rightarrow> router \<Rightarrow> outcome" where
  "config_timers now r =
     (case timer now Update_table r of
        Inl x \<Rightarrow> Inl x
      | Inr r \<Rightarrow>
          (case timer now Check_timeout r of
             Inl x \<Rightarrow> Inl x
           | Inr r \<Rightarrow> timer now Check_is_garbage r))"

section \<open>Notions used in the properties\<close>

text \<open>The state in which one pass through the loop body leaves the router.\<close>

fun flow_state :: "flow \<Rightarrow> router" where
  "flow_state (Continue r) = r"
| "flow_state (Return r) = r"
| "flow_state (Raise e r) = r"

text \<open>
  A routing table is well formed when it is a dictionary keyed by destination: the keys
  are distinct and every entry is stored under its own \<open>addr\<close>.
\<close>

definition table_wf :: "router \<Rightarrow> bool" where
  "table_wf r \<longleftrightarrow>
     distinct (map fst (routing_table r)) \<and> list_all (\<lambda>(k, e). addr e = k) (routing_table r)"

text \<open>
  The self-entry: exactly one entry of the table has the router's id as \<open>addr\<close>, it is
  the entry stored under that id, and it has next hop 0, metric 0, is imported, not
  marked changed, not garbage, and has no timeout.
\<close>

definition self_entry_ok :: "router \<Rightarrow> bool" where
  "self_entry_ok r \<longleftrightarrow>
     length (filter (\<lambda>(k, e). addr e = router_id r) (routing_table r)) = 1 \<and>
     (case map_of (routing_table r) (router_id r) of
        None \<Rightarrow> False
      | Some own \<Rightarrow>
          addr own = router_id r \<and> next_hop own = 0 \<and> metric own = 0 \<and> imported own \<and>
          \<not> changed own \<and> \<not> is_garbage own \<and> timeout own = None)"

text \<open>
  The table is well formed and holds \<open>own\<close> under the router's id, where \<open>own\<close> is
  neither marked changed nor garbage and has no timeout.
\<close>

definition holds_self :: "rte \<Rightarrow> router \<Rightarrow> bool" where
  "holds_self own r \<longleftrightarrow>
     table_wf r \<and> map_of (routing_table r) (router_id r) = Some own \<and>
     \<not> changed own \<and> \<not> is_garbage own \<and> timeout own = None"

text \<open>The datagrams sent while the router went from state \<open>r\<close> to state \<open>r'\<close>.\<close>

definition datagrams_of :: "router \<Rightarrow> router \<Rightarrow> (int \<times> byte list) list" where
  "datagrams_of r r' = drop (length (sent r)) (sent r')"

text \<open>
  The packet that \<open>update\<close> builds for output \<open>n\<close> from the candidate list, and the
  relation between the outputs of a router and the datagrams of one call of \<open>update\<close>:
  one datagram for each output, in order, sent to the port of the output and holding the
  serialization of the packet built for it.
\<close>

definition packet_for :: "int \<Rightarrow> router \<Rightarrow> int \<Rightarrow> rte list \<Rightarrow> packet" where
  "packet_for now r n rtes_param =
     \<lparr>header = Some (Header COMMAND_RESPONSE VERSION (router_id r)),
      rtes = Some (validated_rtes now n rtes_param)\<rparr>"

definition one_datagram_each ::
  "int \<Rightarrow> router \<Rightarrow> rte list \<Rightarrow> (int \<times> byte list) list \<Rightarrow> bool" where
  "one_datagram_each now r rtes_param ds \<longleftrightarrow>
     list_all2 (\<lambda>(n, l) (port, bs).
        port = link_port l \<and> Packet_serialize (packet_for now r n rtes_param) = Inr bs)
       (outputs r) ds"

text \<open>
  The offsets, in a datagram, of the bytes of the fields \<open>cmd\<close> and \<open>ver\<close> of the
  header and \<open>afi\<close>, \<open>tag\<close> and \<open>mask\<close> of each RTE; two datagrams that differ in
  such bytes only; and what the log shows of a table: for each key, in order, the
  destination, metric, next hop, change flag and garbage flag.
\<close>

definition fixed_field_offset :: "nat \<Rightarrow> bool" where
  "fixed_field_offset i \<longleftrightarrow>
     i < 2 \<or> (4 \<le> i \<and> ((i - 4) mod 20 < 4 \<or> (8 \<le> (i - 4) mod 20 \<and> (i - 4) mod 20 < 12)))"

definition differ_in_fixed_fields_only :: "byte list \<Rightarrow> byte list \<Rightarrow> bool" where
  "differ_in_fixed_fields_only d d' \<longleftrightarrow>
     length d = length d' \<and>
     list_all (\<lambda>i. fixed_field_offset i \<or> d ! i = d' ! i) [0..<length d]"

definition table_view :: "router \<Rightarrow> (int \<times> row) list" where
  "table_view r = map (\<lambda>(k, e). (k, row_of e)) (routing_table r)"

text \<open>An RTE, and a router state, with the three fixed fields of every entry set to 0.\<close>

definition clear_fixed :: "rte \<Rightarrow> rte" where
  "clear_fixed e = e\<lparr>afi := 0, tag := 0, mask := 0\<rparr>"

definition clear_fixed_router :: "router \<Rightarrow> router" where
  "clear_fixed_router r =
     r\<lparr>routing_table := map (\<lambda>(k, e). (k, clear_fixed e)) (routing_table r)\<rparr>"

fun clear_fixed_outcome :: "outcome \<Rightarrow> outcome" where
  "clear_fixed_outcome (Inl (e, r)) = Inl (e, clear_fixed_router r)"
| "clear_fixed_outcome (Inr r) = Inr (clear_fixed_router r)"

fun clear_fixed_flow :: "flow \<Rightarrow> flow" where
  "clear_fixed_flow (Continue r) = Continue (clear_fixed_router r)"
| "clear_fixed_flow (Return r) = Return (clear_fixed_router r)"
| "clear_fixed_flow (Raise e r) = Raise e (clear_fixed_router r)"

text \<open>A header with \<open>cmd\<close> and \<open>ver\<close> set to 0, and a packet with all fixed fields set to 0.\<close>

fun clear_fixed_header :: "header \<Rightarrow> header" where
  "clear_fixed_header (Header c v s) = Header 0 0 s"
| "clear_fixed_header Blank_header = Blank_header"

definition clear_fixed_packet :: "packet \<Rightarrow> packet" where
  "clear_fixed_packet p =
     \<lparr>header = map_option clear_fixed_header (header p),
      rtes = map_option (map clear_fixed) (rtes p)\<rparr>"

subsection \<open>Example routers\<close>

text \<open>
  Router 1 with input port 5001 and one neighbour, router 2, at port 5002 with link
  metric 1, as \<open>Router.__init__\<close> builds it at clock reading 0.
\<close>

definition router1 :: router where
  "router1 =
     state_of (Router_init 0
       \<lparr>config_id = 1, config_inputs_of = [5001],
        config_outputs_of = [\<lparr>output_id = 2, output_port = 5002, output_metric = 1\<rparr>]\<rparr>)"

text \<open>
  Router 1 after it received, at clock reading 3 seconds, the datagram in which router 2
  announces its own self-entry (destination 2, next hop 0, metric 0).
\<close>

definition router1_knows2 :: router where
  "router1_knows2 =
     state_of (handle_inputs
       [(3000000, [2, 2, 0, 2, 0, 2, 0, 0, 0, 0, 0, 2, 0, 0, 0, 0, 0, 0, 0, 0, 0, 0, 0, 0])]
       router1)"

text \<open>
  Router 1, knowing router 2 since clock reading 3 seconds, after it received at 10
  seconds a datagram in which router 2 reports destination 2 with metric 16.
\<close>

definition router1_poisoned :: router where
  "router1_poisoned =
     state_of (handle_inputs
       [(10000000, [2, 2, 0, 2, 0, 2, 0, 0, 0, 0, 0, 2, 0, 0, 0, 0, 0, 0, 0, 0, 0, 0, 0, 16])]
       router1_knows2)"

section \<open>The wire codec\<close>

subsection \<open>Packing and unpacking\<close>

lemma be_int_append: "be_int acc (xs @ ys) = be_int (be_int acc xs) ys"
  by (induction xs arbitrary: acc) auto

lemma length_be_bytes: "length (be_bytes n v) = n"
  by (induction n arbitrary: v) auto

lemma be_int_be_bytes: "be_int acc (be_bytes n v) = acc * 256 ^ n + v mod 256 ^ n"
proof (induction n arbitrary: v acc)
  case 0
  then show ?case by simp
next
  case (Suc n)
  have "v mod (256 * 256 ^ n) = 256 * ((v div 256) mod 256 ^ n) + v mod 256"
    by (rule zmod_zmult2_eq) simp
  then show ?case using Suc
    by (simp add: be_int_append uint_word_of_int algebra_simps)
qed

lemma be_int_be_bytes_id: "0 \<le> v \<Longrightarrow> v < 256 ^ n \<Longrightarrow> be_int 0 (be_bytes n v) = v"
  by (simp add: be_int_be_bytes)

lemma pack_fields_Inr:
  "pack_fields fmt vs = Inr bs \<Longrightarrow> length bs = calcsize fmt \<and> unpack_fields fmt bs = vs"
proof (induction fmt vs arbitrary: bs rule: pack_fields.induct)
  case 1
  then show ?case by (simp add: calcsize_def)
next
  case (2 n ns v vs)
  then show ?case
    by (auto simp: calcsize_def length_be_bytes be_int_be_bytes_id split: if_splits sum.splits)
qed simp_all

lemma sizes: "HEADER_SIZE = 4" "RTE_SIZE = 20"
  by (simp_all add: HEADER_SIZE_def RTE_SIZE_def calcsize_def HEADER_FORMAT_def RTE_FORMAT_def)

lemma serialize_rtes_length:
  "serialize_rtes pkt rs = Inr bs \<Longrightarrow> length bs = length pkt + 20 * length rs"
proof (induction rs arbitrary: pkt)
  case Nil
  then show ?case by simp
next
  case (Cons r rs)
  then show ?case
    by (auto simp: RTE_serialize_def RTE_SIZE_def[symmetric] sizes split: sum.splits dest!: pack_fields_Inr)
qed

lemma Packet_serialize_length:
  "Packet_serialize p = Inr bs \<Longrightarrow> \<exists>rs. rtes p = Some rs \<and> length bs = 4 + 20 * length rs"
  by (auto simp: Packet_serialize_def Header_serialize_def HEADER_SIZE_def[symmetric] sizes
      split: option.splits sum.splits header.splits
      dest!: pack_fields_Inr serialize_rtes_length)

lemma unpack_header_shape:
  "\<exists>c v s. unpack_fields HEADER_FORMAT bs = [c, v, s]"
  by (simp add: HEADER_FORMAT_def)

lemma unpack_rte_shape:
  "\<exists>a t ad m nh me. unpack_fields RTE_FORMAT bs = [a, t, ad, m, nh, me]"
  by (simp add: RTE_FORMAT_def)

lemma Header_from_network_ok:
  "length bs = 4 \<Longrightarrow> \<exists>c v s. Header_from_network bs = Inr (Header c v s)"
  using unpack_header_shape [of bs]
  by (auto simp: Header_from_network_def struct_unpack_def HEADER_SIZE_def[symmetric] sizes)

lemma Header_from_network_fail:
  "length bs \<noteq> 4 \<Longrightarrow> Header_from_network bs = Inl StructError"
  by (simp add: Header_from_network_def struct_unpack_def HEADER_SIZE_def[symmetric] sizes)

lemma RTE_network_ok:
  "length bs = 20 \<Longrightarrow> \<exists>e. RTE_network now bs s = Inr e"
  using unpack_rte_shape [of bs]
  by (auto simp: RTE_network_def RTE_from_network_def struct_unpack_def RTE_SIZE_def[symmetric] sizes)

lemma length_slice: "j \<le> length xs \<Longrightarrow> length (slice i j xs) = j - i"
  by (simp add: slice_def)

lemma parse_rtes_ok:
  "rte_start + 20 * n \<le> length data \<Longrightarrow>
   \<exists>rs. parse_rtes now data s n rte_start = Inr rs \<and> length rs = n"
proof (induction n arbitrary: rte_start)
  case 0
  then show ?case by simp
next
  case (Suc n)
  have "length (slice rte_start (rte_start + 20) data) = 20"
    using Suc.prems by (simp add: length_slice)
  then obtain e where e: "RTE_network now (slice rte_start (rte_start + 20) data) s = Inr e"
    using RTE_network_ok by blast
  from Suc.prems have "(rte_start + 20) + 20 * n \<le> length data" by simp
  from Suc.IH [OF this] obtain rs where
    "parse_rtes now data s n (rte_start + 20) = Inr rs" "length rs = n" by blast
  with e show ?case by (simp add: sizes)
qed

lemma rte_count_ge4: "4 \<le> n \<Longrightarrow> nat (rte_count n) = (n - 4) div 20"
  by (simp add: rte_count_def sizes Let_def nat_div_distrib nat_diff_distrib' of_nat_diff)

lemma decode_ok:
  assumes "4 \<le> length d"
  shows "\<exists>c v s rs. Packet_init now (Some d) None None =
            Inr \<lparr>header = Some (Header c v s), rtes = Some rs\<rparr> \<and>
          length rs = (length d - 4) div 20"
proof -
  from assms have ne: "d \<noteq> []" by auto
  have "length (slice 0 4 d) = 4" using assms by (simp add: length_slice)
  then obtain c v s where h: "Header_from_network (slice 0 4 d) = Inr (Header c v s)"
    using Header_from_network_ok by blast
  have s4: "slice 0 4 d \<noteq> []" using \<open>length (slice 0 4 d) = 4\<close> by auto
  have "4 + 20 * ((length d - 4) div 20) \<le> length d" using assms by simp
  from parse_rtes_ok [OF this] obtain rs where
    "parse_rtes now d s ((length d - 4) div 20) 4 = Inr rs" "length rs = (length d - 4) div 20"
    by blast
  with h s4 ne assms show ?thesis
    by (simp add: Packet_init_def Packet_from_network_def Header_init_def sizes rte_count_ge4)
qed

lemma decode_fail:
  assumes "0 < length d" "length d < 4"
  shows "Packet_init now (Some d) None None = Inl StructError"
proof -
  from assms have ne: "d \<noteq> []" by auto
  have l: "length (slice 0 4 d) \<noteq> 4" using assms by (simp add: slice_def)
  have s4: "slice 0 4 d \<noteq> []" using assms by (simp add: slice_def)
  show ?thesis using ne s4 Header_from_network_fail [OF l]
    by (simp add: Packet_init_def Packet_from_network_def Header_init_def sizes)
qed

lemma decode_empty: "Packet_init now (Some []) None None = Inr \<lparr>header = None, rtes = None\<rparr>"
  by (simp add: Packet_init_def Packet_from_host_def)


lemma RTE_roundtrip_aux:
  assumes "RTE_serialize e = Inr bs"
  shows "RTE_network now bs sid =
           Inr ((RTE_new now False)\<lparr>afi := afi e, tag := tag e, addr := addr e, mask := mask e,
                  next_hop := (if next_hop e = 0 then sid else next_hop e), metric := metric e\<rparr>)"
proof -
  from assms have l: "length bs = 20"
    and u: "unpack_fields RTE_FORMAT bs = [afi e, tag e, addr e, mask e, next_hop e, metric e]"
    by (auto simp: RTE_serialize_def RTE_SIZE_def[symmetric] sizes dest!: pack_fields_Inr)
  from l have "bs \<noteq> []" by auto
  with l u show ?thesis
    by (simp add: RTE_network_def RTE_from_network_def struct_unpack_def RTE_SIZE_def[symmetric] sizes)
qed

lemma Header_roundtrip_aux:
  assumes "Header_serialize h = Inr bs"
  shows "Header_init (Some bs) None = Inr h"
proof -
  from assms obtain c v s where h: "h = Header c v s"
    by (cases h) (auto simp: Header_serialize_def)
  with assms have l: "length bs = 4" and u: "unpack_fields HEADER_FORMAT bs = [c, v, s]"
    by (auto simp: Header_serialize_def HEADER_SIZE_def[symmetric] sizes dest!: pack_fields_Inr)
  from l have "bs \<noteq> []" by auto
  with l u h show ?thesis
    by (simp add: Header_init_def Header_from_network_def struct_unpack_def HEADER_SIZE_def[symmetric] sizes)
qed

subsection \<open>Wire size and decoding\<close>

text \<open>
  C7 (as amended).  When \<open>Packet.serialize\<close> returns, the packet has a list of \<open>k\<close> RTEs
  and the result has exactly \<open>4 + 20 * k\<close> bytes.  Decoding a received byte string raises
  exactly when the string has 1, 2 or 3 bytes (the header cannot be unpacked).  A string
  of \<open>n \<ge> 4\<close> bytes decodes to a header and \<open>(n - 4) div 20\<close> RTEs, whatever \<open>n\<close> is:
  trailing bytes that do not fill an RTE are ignored, and in particular every string of
  \<open>4 + 20 * k\<close> bytes decodes to \<open>k\<close> RTEs.  The empty string does not raise either: it
  yields a packet whose header and RTE list are \<open>None\<close>.
\<close>

theorem packet_wire_size:
  "(Packet_serialize p = Inr bs \<longrightarrow>
      (\<exists>rs. rtes p = Some rs \<and> length bs = 4 + 20 * length rs)) \<and>
   ((\<exists>e. Packet_init now (Some d) None None = Inl e) \<longleftrightarrow> 0 < length d \<and> length d < 4) \<and>
   (4 \<le> length d \<longrightarrow>
      (\<exists>h rs. Packet_init now (Some d) None None = Inr \<lparr>header = Some h, rtes = Some rs\<rparr> \<and>
         length rs = (length d - 4) div 20)) \<and>
   Packet_init now (Some []) None None = Inr \<lparr>header = None, rtes = None\<rparr>"
proof -
  have 1: "Packet_serialize p = Inr bs \<longrightarrow>
      (\<exists>rs. rtes p = Some rs \<and> length bs = 4 + 20 * length rs)"
    using Packet_serialize_length by blast
  have 3: "4 \<le> length d \<longrightarrow>
      (\<exists>h rs. Packet_init now (Some d) None None = Inr \<lparr>header = Some h, rtes = Some rs\<rparr> \<and>
         length rs = (length d - 4) div 20)"
    using decode_ok [of d now] by blast
  have 4: "Packet_init now (Some []) None None = Inr \<lparr>header = None, rtes = None\<rparr>"
    by (rule decode_empty)
  have 2: "(\<exists>e. Packet_init now (Some d) None None = Inl e) \<longleftrightarrow> 0 < length d \<and> length d < 4"
  proof (cases "d = []")
    case True
    then show ?thesis using 4 by simp
  next
    case False
    show ?thesis
    proof (cases "length d < 4")
      case True
      then show ?thesis using False decode_fail [of d now] by simp
    next
      case False
      then have "4 \<le> length d" by simp
      with 3 False show ?thesis by auto
    qed
  qed
  from 1 2 3 4 show ?thesis by blast
qed

text \<open>
  The theorem at the packet that carries the self-entry of router 1, and at its own
  24 bytes read back.
\<close>

theorem packet_wire_size_witness:
  "Packet_serialize \<lparr>header = Some (Header 2 2 1), rtes = Some [RTE_host 0 1 0 0 True]\<rparr> =
     Inr [2, 2, 0, 1, 0, 2, 0, 0, 0, 0, 0, 1, 0, 0, 0, 0, 0, 0, 0, 0, 0, 0, 0, 0] \<and>
   length [2, 2, 0, 1, 0, 2, 0, 0, 0, 0, 0, 1, 0, 0, 0, 0, 0, 0, 0, 0, 0, 0, 0, 0 :: byte] =
     4 + 20 * length [RTE_host 0 1 0 0 True] \<and>
   (\<exists>h rs. Packet_init 0
        (Some [2, 2, 0, 1, 0, 2, 0, 0, 0, 0, 0, 1, 0, 0, 0, 0, 0, 0, 0, 0, 0, 0, 0, 0]) None None =
        Inr \<lparr>header = Some h, rtes = Some rs\<rparr> \<and> length rs = 1)"
proof -
  have s: "Packet_serialize \<lparr>header = Some (Header 2 2 1), rtes = Some [RTE_host 0 1 0 0 True]\<rparr> =
     Inr [2, 2, 0, 1, 0, 2, 0, 0, 0, 0, 0, 1, 0, 0, 0, 0, 0, 0, 0, 0, 0, 0, 0, 0]"
    by code_simp
  show ?thesis
    using s packet_wire_size
      [of "\<lparr>header = Some (Header 2 2 1), rtes = Some [RTE_host 0 1 0 0 True]\<rparr>"
          "[2, 2, 0, 1, 0, 2, 0, 0, 0, 0, 0, 1, 0, 0, 0, 0, 0, 0, 0, 0, 0, 0, 0, 0]" 0
          "[2, 2, 0, 1, 0, 2, 0, 0, 0, 0, 0, 1, 0, 0, 0, 0, 0, 0, 0, 0, 0, 0, 0, 0]"]
    by simp
qed

text \<open>
  C7 as stated fails: a datagram of 5 bytes, which is not \<open>4 + 20 * k\<close> bytes, decodes
  without an exception, to a header and no RTE.
\<close>

theorem decode_length_counterexample:
  "4 \<le> length [2, 2, 0, 1, 9 :: byte] \<and> (length [2, 2, 0, 1, 9 :: byte] - 4) mod 20 \<noteq> 0 \<and>
   Packet_init 0 (Some [2, 2, 0, 1, 9]) None None =
     Inr \<lparr>header = Some (Header 2 2 1), rtes = Some []\<rparr>"
  by (simp add: Packet_init_def Packet_from_network_def Header_init_def slice_def sizes
      calcsize_def HEADER_FORMAT_def Header_from_network_def struct_unpack_def rte_count_def)

subsection \<open>Round trips\<close>

text \<open>
  C8 (as amended).  Let an RTE serialize to the 20 bytes \<open>bs\<close> (a locally constructed
  RTE, \<open>RTE_host\<close>, is one such).  Decoding \<open>bs\<close> with any sender id gives an RTE with
  the same \<open>afi\<close>, \<open>tag\<close>, \<open>addr\<close>, \<open>mask\<close> and \<open>metric\<close>; its \<open>next_hop\<close> is the
  original one when that is not 0, and the sender id when it is 0.  So the decoded RTE is
  equal on all six wire fields (\<open>RTE.__eq__\<close>) when the original next hop is not 0 or the
  sender id is 0.  A header that serializes to the 4 bytes \<open>hb\<close> (a locally constructed
  one is one such) is decoded from \<open>hb\<close> with the same \<open>cmd\<close>, \<open>ver\<close> and \<open>src\<close>.
\<close>

theorem wire_roundtrip:
  "(RTE_serialize e = Inr bs \<longrightarrow>
      (\<exists>e'. RTE_network now bs sid = Inr e' \<and>
         afi e' = afi e \<and> tag e' = tag e \<and> addr e' = addr e \<and> mask e' = mask e \<and>
         metric e' = metric e \<and>
         next_hop e' = (if next_hop e = 0 then sid else next_hop e) \<and>
         (next_hop e \<noteq> 0 \<or> sid = 0 \<longrightarrow> RTE_eq e' e))) \<and>
   (Header_serialize h = Inr hb \<longrightarrow> Header_init (Some hb) None = Inr h)"
  using RTE_roundtrip_aux [of e bs now sid] Header_roundtrip_aux [of h hb]
  by (auto simp: RTE_eq_def)

text \<open>
  The theorem at a route to 3 through 2 with metric 1, decoded with sender id 9, and at
  the header that router 7 constructs.
\<close>

theorem wire_roundtrip_witness:
  "RTE_serialize (RTE_host 0 3 2 1 False) =
     Inr [0, 2, 0, 0, 0, 0, 0, 3, 0, 0, 0, 0, 0, 0, 0, 2, 0, 0, 0, 1] \<and>
   next_hop (RTE_host 0 3 2 1 False) \<noteq> 0 \<and>
   (\<exists>e'. RTE_network 5 [0, 2, 0, 0, 0, 0, 0, 3, 0, 0, 0, 0, 0, 0, 0, 2, 0, 0, 0, 1] 9 = Inr e' \<and>
      RTE_eq e' (RTE_host 0 3 2 1 False)) \<and>
   Header_init None (Some 7) = Inr (Header 2 2 7) \<and>
   Header_serialize (Header 2 2 7) = Inr [2, 2, 0, 7] \<and>
   Header_init (Some [2, 2, 0, 7]) None = Inr (Header 2 2 7)"
proof -
  have a: "RTE_serialize (RTE_host 0 3 2 1 False) =
     Inr [0, 2, 0, 0, 0, 0, 0, 3, 0, 0, 0, 0, 0, 0, 0, 2, 0, 0, 0, 1]"
    by code_simp
  have b: "next_hop (RTE_host 0 3 2 1 False) \<noteq> 0"
    by code_simp
  have c: "Header_init None (Some 7) = Inr (Header 2 2 7)"
    by code_simp
  have d: "Header_serialize (Header 2 2 7) = Inr [2, 2, 0, 7]"
    by code_simp
  show ?thesis
    using a b c d
      wire_roundtrip [of "RTE_host 0 3 2 1 False"
        "[0, 2, 0, 0, 0, 0, 0, 3, 0, 0, 0, 0, 0, 0, 0, 2, 0, 0, 0, 1]" 5 9
        "Header 2 2 7" "[2, 2, 0, 7]"]
    by auto
qed

text \<open>
  C8 as stated fails for the self-entry of router 1, whose next hop is 0: decoded with
  sender id 1 it has next hop 1.
\<close>

theorem rte_roundtrip_counterexample:
  "RTE_serialize (RTE_host 0 1 0 0 True) =
     Inr [0, 2, 0, 0, 0, 0, 0, 1, 0, 0, 0, 0, 0, 0, 0, 0, 0, 0, 0, 0] \<and>
   RTE_network 0 [0, 2, 0, 0, 0, 0, 0, 1, 0, 0, 0, 0, 0, 0, 0, 0, 0, 0, 0, 0] 1 =
     Inr \<lparr>afi = 2, tag = 0, addr = 1, mask = 0, next_hop = 1, metric = 0,
          changed = False, imported = False, timeout = Some 0, is_garbage = False\<rparr> \<and>
   \<not> RTE_eq \<lparr>afi = 2, tag = 0, addr = 1, mask = 0, next_hop = 1, metric = 0,
          changed = False, imported = False, timeout = Some 0, is_garbage = False\<rparr>
        (RTE_host 0 1 0 0 True)"
  by code_simp

section \<open>The emit path\<close>

lemma validated_rtes_nth:
  "i < length rs \<Longrightarrow>
   (next_hop (rs ! i) = n \<longrightarrow>
      addr (validated_rtes now n rs ! i) = addr (rs ! i) \<and>
      next_hop (validated_rtes now n rs ! i) = next_hop (rs ! i) \<and>
      metric (validated_rtes now n rs ! i) = 16) \<and>
   (next_hop (rs ! i) \<noteq> n \<longrightarrow> validated_rtes now n rs ! i = rs ! i)"
  by (simp add: validated_rtes_def RTE_host_def RTE_from_host_def MAX_METRIC_def)

lemma validated_rte_law:
  "metric (if next_hop x \<noteq> n then x else RTE_host now (addr x) (next_hop x) MAX_METRIC (imported x)) < 16 \<Longrightarrow>
   next_hop (if next_hop x \<noteq> n then x else RTE_host now (addr x) (next_hop x) MAX_METRIC (imported x)) \<noteq> n"
  by (simp add: RTE_host_def RTE_from_host_def MAX_METRIC_def split: if_splits)

lemma validated_rtes_law:
  "e \<in> set (validated_rtes now n rs) \<Longrightarrow> metric e < 16 \<Longrightarrow> next_hop e \<noteq> n"
  unfolding validated_rtes_def using validated_rte_law by (metis (no_types, lifting) imageE list.set_map)

lemma send_outputs_sent:
  "send_outputs now h rs outs r = Inr r' \<Longrightarrow>
   \<exists>ds. sent r' = sent r @ ds \<and>
     list_all2 (\<lambda>(n, l) (port, bs). port = link_port l \<and>
        Packet_serialize \<lparr>header = Some h, rtes = Some (validated_rtes now n rs)\<rparr> = Inr bs) outs ds"
proof (induction outs arbitrary: r)
  case Nil
  then show ?case by simp
next
  case (Cons a outs)
  obtain n l where a: "a = (n, l)" by (cases a)
  from Cons.prems a obtain bs where
    bs: "Packet_serialize \<lparr>header = Some h, rtes = Some (validated_rtes now n rs)\<rparr> = Inr bs"
    and rest: "send_outputs now h rs outs (r\<lparr>sent := sent r @ [(link_port l, bs)]\<rparr>) = Inr r'"
    by (auto simp: Packet_init_def Packet_from_host_def split: sum.splits)
  from Cons.IH [OF rest] obtain ds where
    "sent r' = (sent r @ [(link_port l, bs)]) @ ds"
    "list_all2 (\<lambda>(n, l) (port, bs). port = link_port l \<and>
        Packet_serialize \<lparr>header = Some h, rtes = Some (validated_rtes now n rs)\<rparr> = Inr bs) outs ds"
    by auto
  with bs a show ?case by auto
qed

lemma update_datagrams:
  assumes "inputs r \<noteq> []" "update now rs r = Inr r'"
  shows "one_datagram_each now r rs (datagrams_of r r')"
proof (cases "router_id r = 0")
  case True
  with assms have "outputs r = [] \<and> r' = r"
    by (cases "outputs r")
       (auto simp: update_def Header_init_def Packet_init_def Packet_from_host_def
          Packet_serialize_def Header_serialize_def split: sum.splits)
  then show ?thesis by (simp add: one_datagram_each_def datagrams_of_def)
next
  case False
  with assms have "send_outputs now (Header COMMAND_RESPONSE VERSION (router_id r)) rs (outputs r) r = Inr r'"
    by (simp add: update_def Header_init_def Header_from_host_def)
  from send_outputs_sent [OF this] show ?thesis
    by (auto simp: one_datagram_each_def datagrams_of_def packet_for_def)
qed

lemma length_validated_rtes: "length (validated_rtes now n rs) = length rs"
  by (simp add: validated_rtes_def)


text \<open>
  C6.  For every candidate list \<open>rs\<close> and every \<open>n\<close>, the list built for output \<open>n\<close>
  has one RTE for each candidate, in order; a candidate whose next hop is \<open>n\<close> is
  replaced by an RTE with the same \<open>addr\<close> and \<open>next_hop\<close> and metric 16, every other
  candidate is passed through unchanged; so no RTE with metric below 16 in that list has
  next hop \<open>n\<close>.  When \<open>update\<close> returns on a router with an input socket, it has sent
  one datagram to each configured output, and the datagram for output \<open>n\<close> is the
  serialization of the local header and the list built for \<open>n\<close>.
\<close>

theorem split_horizon:
  "length (validated_rtes now n rs) = length rs \<and>
   (\<forall>i<length rs.
      (next_hop (rs ! i) = n \<longrightarrow>
         addr (validated_rtes now n rs ! i) = addr (rs ! i) \<and>
         next_hop (validated_rtes now n rs ! i) = next_hop (rs ! i) \<and>
         metric (validated_rtes now n rs ! i) = 16) \<and>
      (next_hop (rs ! i) \<noteq> n \<longrightarrow> validated_rtes now n rs ! i = rs ! i)) \<and>
   (\<forall>e\<in>set (validated_rtes now n rs). metric e < 16 \<longrightarrow> next_hop e \<noteq> n) \<and>
   (inputs r \<noteq> [] \<and> update now rs r = Inr r' \<longrightarrow>
      one_datagram_each now r rs (datagrams_of r r'))"
proof (intro conjI allI impI ballI)
  show "length (validated_rtes now n rs) = length rs"
    by (rule length_validated_rtes)
next
  fix i assume "i < length rs" "next_hop (rs ! i) = n"
  then show "addr (validated_rtes now n rs ! i) = addr (rs ! i)"
    "next_hop (validated_rtes now n rs ! i) = next_hop (rs ! i)"
    "metric (validated_rtes now n rs ! i) = 16"
    using validated_rtes_nth [of i rs n now] by simp_all
next
  fix i assume "i < length rs" "next_hop (rs ! i) \<noteq> n"
  then show "validated_rtes now n rs ! i = rs ! i"
    using validated_rtes_nth [of i rs n now] by simp
next
  fix e assume "e \<in> set (validated_rtes now n rs)" "metric e < 16"
  then show "next_hop e \<noteq> n" by (rule validated_rtes_law)
next
  assume "inputs r \<noteq> [] \<and> update now rs r = Inr r'"
  then show "one_datagram_each now r rs (datagrams_of r r')"
    using update_datagrams by blast
qed

text \<open>
  The theorem at router 1 and a candidate list of its self-entry and a route to 3 through
  2, for output 2.
\<close>

theorem split_horizon_witness:
  "inputs router1 \<noteq> [] \<and>
   update 7 [RTE_host 0 1 0 0 True, RTE_host 0 3 2 2 False] router1 =
     Inr (router1\<lparr>sent := [(5002,
        [2, 2, 0, 1, 0, 2, 0, 0, 0, 0, 0, 1, 0, 0, 0, 0, 0, 0, 0, 0, 0, 0, 0, 0,
         0, 2, 0, 0, 0, 0, 0, 3, 0, 0, 0, 0, 0, 0, 0, 2, 0, 0, 0, 16])]\<rparr>) \<and>
   next_hop ([RTE_host 0 1 0 0 True, RTE_host 0 3 2 2 False] ! 1) = 2 \<and>
   metric (validated_rtes 7 2 [RTE_host 0 1 0 0 True, RTE_host 0 3 2 2 False] ! 1) = 16 \<and>
   next_hop ([RTE_host 0 1 0 0 True, RTE_host 0 3 2 2 False] ! 0) \<noteq> 2 \<and>
   validated_rtes 7 2 [RTE_host 0 1 0 0 True, RTE_host 0 3 2 2 False] ! 0 =
     RTE_host 0 1 0 0 True \<and>
   one_datagram_each 7 router1 [RTE_host 0 1 0 0 True, RTE_host 0 3 2 2 False]
     (datagrams_of router1 (router1\<lparr>sent := [(5002,
        [2, 2, 0, 1, 0, 2, 0, 0, 0, 0, 0, 1, 0, 0, 0, 0, 0, 0, 0, 0, 0, 0, 0, 0,
         0, 2, 0, 0, 0, 0, 0, 3, 0, 0, 0, 0, 0, 0, 0, 2, 0, 0, 0, 16])]\<rparr>))"
proof -
  let ?rs = "[RTE_host 0 1 0 0 True, RTE_host 0 3 2 2 False]"
  let ?r' = "router1\<lparr>sent := [(5002,
        [2, 2, 0, 1, 0, 2, 0, 0, 0, 0, 0, 1, 0, 0, 0, 0, 0, 0, 0, 0, 0, 0, 0, 0,
         0, 2, 0, 0, 0, 0, 0, 3, 0, 0, 0, 0, 0, 0, 0, 2, 0, 0, 0, 16])]\<rparr>"
  have i: "inputs router1 \<noteq> []" by code_simp
  have u: "update 7 ?rs router1 = Inr ?r'" by code_simp
  have h1: "next_hop (?rs ! 1) = 2" by code_simp
  have h0: "next_hop (?rs ! 0) \<noteq> 2" by code_simp
  note th = split_horizon [of 7 2 ?rs router1 ?r']
  from th have nth: "\<forall>i<length ?rs.
      (next_hop (?rs ! i) = 2 \<longrightarrow>
         addr (validated_rtes 7 2 ?rs ! i) = addr (?rs ! i) \<and>
         next_hop (validated_rtes 7 2 ?rs ! i) = next_hop (?rs ! i) \<and>
         metric (validated_rtes 7 2 ?rs ! i) = 16) \<and>
      (next_hop (?rs ! i) \<noteq> 2 \<longrightarrow> validated_rtes 7 2 ?rs ! i = ?rs ! i)"
    by blast
  from nth [rule_format, of 1] h1 have m: "metric (validated_rtes 7 2 ?rs ! 1) = 16" by simp
  from nth [rule_format, of 0] h0 have k: "validated_rtes 7 2 ?rs ! 0 = RTE_host 0 1 0 0 True"
    by simp
  from th i u have d: "one_datagram_each 7 router1 ?rs (datagrams_of router1 ?r')" by blast
  from i u h1 m h0 k d show ?thesis by blast
qed


section \<open>The periodic update\<close>

lemma timer_Update_table_sent:
  assumes "\<not> end_life r" "timer now Update_table r = Inr r'"
  shows "\<exists>r1. update now (map snd (routing_table r)) r = Inr r1 \<and> sent r' = sent r1"
  using assms by (auto simp: timer_def run_task_def start_def split: sum.splits)

lemma in_set_map_fixed: "x \<in> set xs \<Longrightarrow> f x = x \<Longrightarrow> x \<in> set (map f xs)"
  by force

lemma self_entry_kept:
  assumes "self_entry_ok r" "n \<noteq> 0"
  shows "\<exists>own. map_of (routing_table r) (router_id r) = Some own \<and> metric own = 0 \<and>
           next_hop own = 0 \<and> own \<in> set (validated_rtes now n (map snd (routing_table r)))"
proof -
  from assms(1) obtain own where o: "map_of (routing_table r) (router_id r) = Some own"
    "metric own = 0" "next_hop own = 0"
    by (auto simp: self_entry_ok_def split: option.splits)
  from o(1) have "(router_id r, own) \<in> set (routing_table r)" by (rule map_of_SomeD)
  then have "own \<in> set (map snd (routing_table r))" by force
  moreover have "(if next_hop own \<noteq> n then own
      else RTE_host now (addr own) (next_hop own) MAX_METRIC (imported own)) = own"
    using o(3) assms(2) by simp
  ultimately have "own \<in> set (validated_rtes now n (map snd (routing_table r)))"
    unfolding validated_rtes_def by (rule in_set_map_fixed)
  with o show ?thesis by blast
qed


text \<open>
  C9.  Let the router hold its self-entry, have an input socket, and let a periodic
  update tick return.  It has sent one datagram to each output, built from all entries
  of the table.  The datagram for neighbour \<open>n\<close> has one RTE for each table entry, in
  table order, with the entry's \<open>addr\<close> and \<open>next_hop\<close>, and with metric 16 if the
  entry's next hop is \<open>n\<close> and the entry's metric otherwise (split horizon with
  poisoned reverse).  The self-entry, with metric 0 and next hop 0, is among them as it
  is in the table, not rewritten: a router id is a positive integer and 0 as next hop
  stands for the router itself, so the id \<open>n\<close> of a neighbour is not 0 and never
  equals the next hop of the self-entry.
\<close>

theorem periodic_update_contents:
  "self_entry_ok r \<and> \<not> end_life r \<and> inputs r \<noteq> [] \<and> timer now Update_table r = Inr r' \<longrightarrow>
     one_datagram_each now r (map snd (routing_table r)) (datagrams_of r r') \<and>
     (\<forall>(n, l) \<in> set (outputs r).
        length (validated_rtes now n (map snd (routing_table r))) = length (routing_table r) \<and>
        (\<forall>i<length (routing_table r).
           addr (validated_rtes now n (map snd (routing_table r)) ! i) =
             addr (snd (routing_table r ! i)) \<and>
           next_hop (validated_rtes now n (map snd (routing_table r)) ! i) =
             next_hop (snd (routing_table r ! i)) \<and>
           metric (validated_rtes now n (map snd (routing_table r)) ! i) =
             (if next_hop (snd (routing_table r ! i)) = n then 16
              else metric (snd (routing_table r ! i)))) \<and>
        (n \<noteq> 0 \<longrightarrow>
           (\<exists>own. map_of (routing_table r) (router_id r) = Some own \<and> metric own = 0 \<and>
              next_hop own = 0 \<and>
              own \<in> set (validated_rtes now n (map snd (routing_table r))))))"
proof (intro impI conjI)
  assume a: "self_entry_ok r \<and> \<not> end_life r \<and> inputs r \<noteq> [] \<and> timer now Update_table r = Inr r'"
  then obtain r1 where r1: "update now (map snd (routing_table r)) r = Inr r1" "sent r' = sent r1"
    using timer_Update_table_sent by blast
  with a have "one_datagram_each now r (map snd (routing_table r)) (datagrams_of r r1)"
    using update_datagrams by blast
  with r1 show "one_datagram_each now r (map snd (routing_table r)) (datagrams_of r r')"
    by (simp add: datagrams_of_def)
  have P: "length (validated_rtes now n (map snd (routing_table r))) = length (routing_table r) \<and>
        (\<forall>i<length (routing_table r).
           addr (validated_rtes now n (map snd (routing_table r)) ! i) =
             addr (snd (routing_table r ! i)) \<and>
           next_hop (validated_rtes now n (map snd (routing_table r)) ! i) =
             next_hop (snd (routing_table r ! i)) \<and>
           metric (validated_rtes now n (map snd (routing_table r)) ! i) =
             (if next_hop (snd (routing_table r ! i)) = n then 16
              else metric (snd (routing_table r ! i)))) \<and>
        (n \<noteq> 0 \<longrightarrow>
           (\<exists>own. map_of (routing_table r) (router_id r) = Some own \<and> metric own = 0 \<and>
              next_hop own = 0 \<and>
              own \<in> set (validated_rtes now n (map snd (routing_table r)))))" for n
  proof (intro conjI allI impI)
    show "length (validated_rtes now n (map snd (routing_table r))) = length (routing_table r)"
      by (simp add: length_validated_rtes)
  next
    fix i assume i: "i < length (routing_table r)"
    then have "i < length (map snd (routing_table r))" by simp
    from validated_rtes_nth [OF this, of n now] i
    show "addr (validated_rtes now n (map snd (routing_table r)) ! i) =
             addr (snd (routing_table r ! i))"
      "next_hop (validated_rtes now n (map snd (routing_table r)) ! i) =
             next_hop (snd (routing_table r ! i))"
      "metric (validated_rtes now n (map snd (routing_table r)) ! i) =
             (if next_hop (snd (routing_table r ! i)) = n then 16
              else metric (snd (routing_table r ! i)))"
      by (cases "next_hop (snd (routing_table r ! i)) = n"; simp)+
  next
    assume "n \<noteq> 0"
    with a show "\<exists>own. map_of (routing_table r) (router_id r) = Some own \<and> metric own = 0 \<and>
              next_hop own = 0 \<and>
              own \<in> set (validated_rtes now n (map snd (routing_table r)))"
      using self_entry_kept by blast
  qed
  show "\<forall>(n, l) \<in> set (outputs r).
        length (validated_rtes now n (map snd (routing_table r))) = length (routing_table r) \<and>
        (\<forall>i<length (routing_table r).
           addr (validated_rtes now n (map snd (routing_table r)) ! i) =
             addr (snd (routing_table r ! i)) \<and>
           next_hop (validated_rtes now n (map snd (routing_table r)) ! i) =
             next_hop (snd (routing_table r ! i)) \<and>
           metric (validated_rtes now n (map snd (routing_table r)) ! i) =
             (if next_hop (snd (routing_table r ! i)) = n then 16
              else metric (snd (routing_table r ! i)))) \<and>
        (n \<noteq> 0 \<longrightarrow>
           (\<exists>own. map_of (routing_table r) (router_id r) = Some own \<and> metric own = 0 \<and>
              next_hop own = 0 \<and>
              own \<in> set (validated_rtes now n (map snd (routing_table r)))))"
    by (rule ballI, clarify, rule P)
qed


text \<open>The theorem at router 1 once it knows router 2, at clock reading 7.\<close>

theorem periodic_update_contents_witness:
  "self_entry_ok router1_knows2 \<and> \<not> end_life router1_knows2 \<and> inputs router1_knows2 \<noteq> [] \<and>
   timer 7 Update_table router1_knows2 =
     Inr (router1_knows2
       \<lparr>sent := [(5002,
           [2, 2, 0, 1, 0, 2, 0, 0, 0, 0, 0, 1, 0, 0, 0, 0, 0, 0, 0, 0, 0, 0, 0, 0,
            0, 2, 0, 0, 0, 0, 0, 2, 0, 0, 0, 0, 0, 0, 0, 2, 0, 0, 0, 16])],
        armed := [(5, Call_timer Update_table)]\<rparr>) \<and>
   (2, \<lparr>link_port = 5002, link_metric = 1\<rparr>) \<in> set (outputs router1_knows2) \<and>
   length (validated_rtes 7 2 (map snd (routing_table router1_knows2))) = 2 \<and>
   (\<exists>own. map_of (routing_table router1_knows2) (router_id router1_knows2) = Some own \<and>
      metric own = 0 \<and> next_hop own = 0 \<and>
      own \<in> set (validated_rtes 7 2 (map snd (routing_table router1_knows2))))"
proof -
  let ?r' = "router1_knows2
       \<lparr>sent := [(5002,
           [2, 2, 0, 1, 0, 2, 0, 0, 0, 0, 0, 1, 0, 0, 0, 0, 0, 0, 0, 0, 0, 0, 0, 0,
            0, 2, 0, 0, 0, 0, 0, 2, 0, 0, 0, 0, 0, 0, 0, 2, 0, 0, 0, 16])],
        armed := [(5, Call_timer Update_table)]\<rparr>"
  have s: "self_entry_ok router1_knows2" by code_simp
  have e: "\<not> end_life router1_knows2" by code_simp
  have i: "inputs router1_knows2 \<noteq> []" by code_simp
  have t: "timer 7 Update_table router1_knows2 = Inr ?r'" by code_simp
  have o: "(2, \<lparr>link_port = 5002, link_metric = 1\<rparr>) \<in> set (outputs router1_knows2)"
    by code_simp
  have l: "length (routing_table router1_knows2) = 2" by code_simp
  from periodic_update_contents [of router1_knows2 7 ?r'] s e i t
  have "\<forall>(n, l) \<in> set (outputs router1_knows2).
        length (validated_rtes 7 n (map snd (routing_table router1_knows2))) =
          length (routing_table router1_knows2) \<and>
        (\<forall>i<length (routing_table router1_knows2).
           addr (validated_rtes 7 n (map snd (routing_table router1_knows2)) ! i) =
             addr (snd (routing_table router1_knows2 ! i)) \<and>
           next_hop (validated_rtes 7 n (map snd (routing_table router1_knows2)) ! i) =
             next_hop (snd (routing_table router1_knows2 ! i)) \<and>
           metric (validated_rtes 7 n (map snd (routing_table router1_knows2)) ! i) =
             (if next_hop (snd (routing_table router1_knows2 ! i)) = n then 16
              else metric (snd (routing_table router1_knows2 ! i)))) \<and>
        (n \<noteq> 0 \<longrightarrow>
           (\<exists>own. map_of (routing_table router1_knows2) (router_id router1_knows2) = Some own \<and>
              metric own = 0 \<and> next_hop own = 0 \<and>
              own \<in> set (validated_rtes 7 n (map snd (routing_table router1_knows2)))))"
    by blast
  from bspec [OF this o] l
  have "length (validated_rtes 7 2 (map snd (routing_table router1_knows2))) = 2 \<and>
    (\<exists>own. map_of (routing_table router1_knows2) (router_id router1_knows2) = Some own \<and>
      metric own = 0 \<and> next_hop own = 0 \<and>
      own \<in> set (validated_rtes 7 2 (map snd (routing_table router1_knows2))))"
    by simp
  with s e i t o show ?thesis by blast
qed

section \<open>The receive path\<close>

subsection \<open>Datagrams from a sender that is not an output\<close>

lemma update_rte_unknown:
  "map_of (outputs r) s = None \<Longrightarrow>
   update_rte now (Some (Header c v s)) rte r =
     (if addr rte \<noteq> router_id r then Raise KeyError r else Continue r)"
  by (simp add: update_rte_def)

lemma update_rtes_unknown:
  "map_of (outputs r) s = None \<Longrightarrow>
   update_rtes now (Some (Header c v s)) rs r =
     (if list_all (\<lambda>e. addr e = router_id r) rs then Inr r else Inl (KeyError, r))"
  by (induction rs) (simp_all add: update_rte_unknown)

text \<open>
  C2 (as amended).  Let the \<open>src\<close> of the header of a received datagram not be a key of
  \<open>outputs\<close>.  Then \<open>update_routing_table\<close> leaves the router as it is, routing table
  included.  It returns only when every RTE of the datagram has the router's own id as
  \<open>addr\<close> (or there is no RTE); otherwise it raises \<open>KeyError\<close> at the first other
  RTE, and the exception escapes from \<open>handle_inputs\<close>.
\<close>

theorem unknown_sender:
  "map_of (outputs r) s = None \<longrightarrow>
     update_routing_table now \<lparr>header = Some (Header c v s), rtes = Some rs\<rparr> r =
       (if list_all (\<lambda>e. addr e = router_id r) rs then Inr r else Inl (KeyError, r)) \<and>
     (Packet_init now (Some d) None None = Inr \<lparr>header = Some (Header c v s), rtes = Some rs\<rparr> \<and>
      \<not> list_all (\<lambda>e. addr e = router_id r) rs \<longrightarrow>
        handle_inputs ((now, d) # ports) r = Inl (KeyError, r))"
  by (simp add: update_routing_table_def update_rtes_unknown handle_inputs_def)

text \<open>The theorem at router 1 and a datagram from router 9 that announces destination 3.\<close>

theorem unknown_sender_witness:
  "map_of (outputs router1) 9 = None \<and>
   Packet_init 3000000
     (Some [2, 2, 0, 9, 0, 2, 0, 0, 0, 0, 0, 3, 0, 0, 0, 0, 0, 0, 0, 0, 0, 0, 0, 1]) None None =
     Inr \<lparr>header = Some (Header 2 2 9),
          rtes = Some [\<lparr>afi = 2, tag = 0, addr = 3, mask = 0, next_hop = 9, metric = 1,
                        changed = False, imported = False, timeout = Some 3000000,
                        is_garbage = False\<rparr>]\<rparr> \<and>
   \<not> list_all (\<lambda>e. addr e = router_id router1)
        [\<lparr>afi = 2, tag = 0, addr = 3, mask = 0, next_hop = 9, metric = 1,
          changed = False, imported = False, timeout = Some 3000000, is_garbage = False\<rparr>] \<and>
   update_routing_table 3000000
     \<lparr>header = Some (Header 2 2 9),
      rtes = Some [\<lparr>afi = 2, tag = 0, addr = 3, mask = 0, next_hop = 9, metric = 1,
                    changed = False, imported = False, timeout = Some 3000000,
                    is_garbage = False\<rparr>]\<rparr> router1 = Inl (KeyError, router1) \<and>
   handle_inputs
     [(3000000, [2, 2, 0, 9, 0, 2, 0, 0, 0, 0, 0, 3, 0, 0, 0, 0, 0, 0, 0, 0, 0, 0, 0, 1])]
     router1 = Inl (KeyError, router1)"
proof -
  let ?d = "[2, 2, 0, 9, 0, 2, 0, 0, 0, 0, 0, 3, 0, 0, 0, 0, 0, 0, 0, 0, 0, 0, 0, 1 :: byte]"
  let ?e = "\<lparr>afi = 2, tag = 0, addr = 3, mask = 0, next_hop = 9, metric = 1,
          changed = False, imported = False, timeout = Some 3000000, is_garbage = False\<rparr>"
  have a: "map_of (outputs router1) 9 = None" by code_simp
  have b: "Packet_init 3000000 (Some ?d) None None =
     Inr \<lparr>header = Some (Header 2 2 9), rtes = Some [?e]\<rparr>" by code_simp
  have c: "\<not> list_all (\<lambda>e. addr e = router_id router1) [?e]" by code_simp
  from unknown_sender [of router1 9 3000000 2 2 "[?e]" ?d "[]"] a b c
  show ?thesis by simp
qed

text \<open>
  C2 as stated fails: router 1 has no output 9, and the receive path raises \<open>KeyError\<close>
  on a datagram from 9.
\<close>

theorem unknown_sender_counterexample:
  "map_of (outputs router1) 9 = None \<and>
   handle_inputs
     [(3000000, [2, 2, 0, 9, 0, 2, 0, 0, 0, 0, 0, 3, 0, 0, 0, 0, 0, 0, 0, 0, 0, 0, 0, 1])]
     router1 = Inl (KeyError, router1)"
  by code_simp

subsection \<open>The RTEs after a new route\<close>

lemma update_rte_new_route:
  assumes "addr rte \<noteq> router_id r" "map_of (routing_table r) (addr rte) = None"
    "map_of (outputs r) s = Some l"
  shows "\<exists>r'. update_rte now (Some (Header c v s)) rte r = Return r'"
  using assms by (simp add: update_rte_def Let_def)

text \<open>
  C3.  The claim is that every RTE of a datagram is processed.  The code returns from
  \<open>update_routing_table\<close> at the first RTE for a destination that is not in the table
  (whether it inserts the route or skips it as unreachable): the RTEs after it have no
  effect at all.
\<close>

theorem early_return:
  "addr rte \<noteq> router_id r \<and> map_of (routing_table r) (addr rte) = None \<and>
   map_of (outputs r) s = Some l \<longrightarrow>
     update_rtes now (Some (Header c v s)) (rte # rest) r =
     update_rtes now (Some (Header c v s)) [rte] r"
proof
  assume a: "addr rte \<noteq> router_id r \<and> map_of (routing_table r) (addr rte) = None \<and>
   map_of (outputs r) s = Some l"
  then obtain r' where "update_rte now (Some (Header c v s)) rte r = Return r'"
    using update_rte_new_route by blast
  then show "update_rtes now (Some (Header c v s)) (rte # rest) r =
     update_rtes now (Some (Header c v s)) [rte] r" by simp
qed

text \<open>
  The theorem at router 1 and a datagram from router 2 that announces destinations 3
  and 4: destination 3 is inserted, destination 4 is not.
\<close>

theorem early_return_witness:
  "addr \<lparr>afi = 2, tag = 0, addr = 3, mask = 0, next_hop = 2, metric = 1,
          changed = False, imported = False, timeout = Some 3000000, is_garbage = False\<rparr> \<noteq>
     router_id router1 \<and>
   map_of (routing_table router1) 3 = None \<and>
   map_of (outputs router1) 2 = Some \<lparr>link_port = 5002, link_metric = 1\<rparr> \<and>
   update_rtes 3000000 (Some (Header 2 2 2))
     [\<lparr>afi = 2, tag = 0, addr = 3, mask = 0, next_hop = 2, metric = 1,
       changed = False, imported = False, timeout = Some 3000000, is_garbage = False\<rparr>,
      \<lparr>afi = 2, tag = 0, addr = 4, mask = 0, next_hop = 2, metric = 1,
       changed = False, imported = False, timeout = Some 3000000, is_garbage = False\<rparr>]
     router1 =
   update_rtes 3000000 (Some (Header 2 2 2))
     [\<lparr>afi = 2, tag = 0, addr = 3, mask = 0, next_hop = 2, metric = 1,
       changed = False, imported = False, timeout = Some 3000000, is_garbage = False\<rparr>]
     router1 \<and>
   map fst (routing_table (state_of (update_rtes 3000000 (Some (Header 2 2 2))
     [\<lparr>afi = 2, tag = 0, addr = 3, mask = 0, next_hop = 2, metric = 1,
       changed = False, imported = False, timeout = Some 3000000, is_garbage = False\<rparr>]
     router1))) = [1, 3]"
proof -
  let ?e3 = "\<lparr>afi = 2, tag = 0, addr = 3, mask = 0, next_hop = 2, metric = 1,
       changed = False, imported = False, timeout = Some 3000000, is_garbage = False\<rparr>"
  let ?e4 = "\<lparr>afi = 2, tag = 0, addr = 4, mask = 0, next_hop = 2, metric = 1,
       changed = False, imported = False, timeout = Some 3000000, is_garbage = False\<rparr>"
  have a: "addr ?e3 \<noteq> router_id router1" by code_simp
  have b: "map_of (routing_table router1) 3 = None" by code_simp
  have c: "map_of (outputs router1) 2 = Some \<lparr>link_port = 5002, link_metric = 1\<rparr>" by code_simp
  have d: "map fst (routing_table (state_of (update_rtes 3000000 (Some (Header 2 2 2))
     [?e3] router1))) = [1, 3]" by code_simp
  from early_return [of ?e3 router1 2 "\<lparr>link_port = 5002, link_metric = 1\<rparr>" 3000000 2 2 "[?e4]"]
    a b c d
  show ?thesis by simp
qed

subsection \<open>Poisoning\<close>

lemma map_of_modified:
  "map_of (map (\<lambda>(k', e). if k' = k then (k', f e) else (k', e)) t) x =
     (if x = k then map_option f (map_of t k) else map_of t x)"
  by (induction t) auto

lemma map_of_modify:
  "map_of (routing_table (modify k f r)) x =
     (if x = k then map_option f (map_of (routing_table r) k) else map_of (routing_table r) x)"
  by (simp add: modify_def map_of_modified)

lemma update_rte_poison:
  assumes "addr rte \<noteq> router_id r" "map_of (outputs r) s = Some l"
    "map_of (routing_table r) (addr rte) = Some c" "next_hop c = s" "metric c \<noteq> 16"
    "16 \<le> metric rte + link_metric l"
  shows "update_rte now (Some (Header cm v s)) rte r =
    Continue ((modify (addr rte) (\<lambda>c. c\<lparr>metric := MAX_METRIC, is_garbage := True,
                                                  changed := True\<rparr>) r)
                                         \<lparr>table_changed := True\<rparr>)"
  using assms by (simp add: update_rte_def Let_def set_next_hop_def MAX_METRIC_def)

text \<open>
  C4.  The claim is that every poisoning sets \<open>timeout = now\<close> and that an entry that is
  garbage is not poisoned again.  On the receive path, an unreachable report from the
  current next hop of a route with a metric other than 16 sets metric 16, \<open>is_garbage\<close>
  and \<open>changed\<close>, and leaves \<open>timeout\<close> as it was.  And \<open>check_timeout\<close> does not
  look at \<open>is_garbage\<close>: the entry for 2 of the example router, garbage with a timeout
  of 3 seconds, is poisoned again at 33 seconds (flag \<open>changed\<close> set, timeout moved
  to 33 seconds).
\<close>

theorem poison_transitions:
  "(addr rte \<noteq> router_id r \<and> map_of (outputs r) s = Some l \<and>
    map_of (routing_table r) (addr rte) = Some c \<and> next_hop c = s \<and> metric c \<noteq> 16 \<and>
    16 \<le> metric rte + link_metric l \<longrightarrow>
      (\<exists>r'. update_rte now (Some (Header cm v s)) rte r = Continue r' \<and>
         map_of (routing_table r') (addr rte) =
           Some (c\<lparr>metric := 16, is_garbage := True, changed := True\<rparr>))) \<and>
   map_of (routing_table router1_poisoned) 2 =
     Some \<lparr>afi = 2, tag = 0, addr = 2, mask = 0, next_hop = 2, metric = 16,
           changed = False, imported = False, timeout = Some 3000000, is_garbage = True\<rparr> \<and>
   map_of (routing_table (state_of (check_timeout 33000000 router1_poisoned))) 2 =
     Some \<lparr>afi = 2, tag = 0, addr = 2, mask = 0, next_hop = 2, metric = 16,
           changed = True, imported = False, timeout = Some 33000000, is_garbage = True\<rparr>"
proof (intro conjI impI)
  assume a: "addr rte \<noteq> router_id r \<and> map_of (outputs r) s = Some l \<and>
    map_of (routing_table r) (addr rte) = Some c \<and> next_hop c = s \<and> metric c \<noteq> 16 \<and>
    16 \<le> metric rte + link_metric l"
  then have "update_rte now (Some (Header cm v s)) rte r =
    Continue ((modify (addr rte) (\<lambda>c. c\<lparr>metric := MAX_METRIC, is_garbage := True,
                                                  changed := True\<rparr>) r)
                                         \<lparr>table_changed := True\<rparr>)"
    using update_rte_poison by blast
  moreover have "map_of (routing_table ((modify (addr rte) (\<lambda>c. c\<lparr>metric := MAX_METRIC, is_garbage := True,
                                                  changed := True\<rparr>) r)
                                         \<lparr>table_changed := True\<rparr>)) (addr rte) =
        Some (c\<lparr>metric := 16, is_garbage := True, changed := True\<rparr>)"
    using a map_of_modify [of "addr rte" _ r "addr rte"] by (simp add: MAX_METRIC_def)
  ultimately show "\<exists>r'. update_rte now (Some (Header cm v s)) rte r = Continue r' \<and>
         map_of (routing_table r') (addr rte) =
           Some (c\<lparr>metric := 16, is_garbage := True, changed := True\<rparr>)"
    by blast
next
  show "map_of (routing_table router1_poisoned) 2 =
     Some \<lparr>afi = 2, tag = 0, addr = 2, mask = 0, next_hop = 2, metric = 16,
           changed = False, imported = False, timeout = Some 3000000, is_garbage = True\<rparr>"
    by code_simp
next
  show "map_of (routing_table (state_of (check_timeout 33000000 router1_poisoned))) 2 =
     Some \<lparr>afi = 2, tag = 0, addr = 2, mask = 0, next_hop = 2, metric = 16,
           changed = True, imported = False, timeout = Some 33000000, is_garbage = True\<rparr>"
    by code_simp
qed

text \<open>
  The first part at router 1, which knows router 2 since 3 seconds, and the RTE of an
  unreachable report for 2 from router 2, processed at 10 seconds: the timeout stays at
  3 seconds.
\<close>

theorem poison_transitions_witness:
  "addr \<lparr>afi = 2, tag = 0, addr = 2, mask = 0, next_hop = 2, metric = 16,
          changed = False, imported = False, timeout = Some 10000000, is_garbage = False\<rparr> \<noteq>
     router_id router1_knows2 \<and>
   map_of (outputs router1_knows2) 2 = Some \<lparr>link_port = 5002, link_metric = 1\<rparr> \<and>
   map_of (routing_table router1_knows2) 2 =
     Some \<lparr>afi = 2, tag = 0, addr = 2, mask = 0, next_hop = 2, metric = 1,
           changed = False, imported = False, timeout = Some 3000000, is_garbage = False\<rparr> \<and>
   (\<exists>r'. update_rte 10000000 (Some (Header 2 2 2))
       \<lparr>afi = 2, tag = 0, addr = 2, mask = 0, next_hop = 2, metric = 16,
        changed = False, imported = False, timeout = Some 10000000, is_garbage = False\<rparr>
       router1_knows2 = Continue r' \<and>
     map_of (routing_table r') 2 =
       Some \<lparr>afi = 2, tag = 0, addr = 2, mask = 0, next_hop = 2, metric = 16,
             changed = True, imported = False, timeout = Some 3000000, is_garbage = True\<rparr>)"
proof -
  let ?rte = "\<lparr>afi = 2, tag = 0, addr = 2, mask = 0, next_hop = 2, metric = 16,
          changed = False, imported = False, timeout = Some 10000000, is_garbage = False\<rparr>"
  let ?c = "\<lparr>afi = 2, tag = 0, addr = 2, mask = 0, next_hop = 2, metric = 1,
           changed = False, imported = False, timeout = Some 3000000, is_garbage = False\<rparr>"
  let ?l = "\<lparr>link_port = 5002, link_metric = 1\<rparr>"
  have a: "addr ?rte \<noteq> router_id router1_knows2" by code_simp
  have b: "map_of (outputs router1_knows2) 2 = Some ?l" by code_simp
  have c: "map_of (routing_table router1_knows2) 2 = Some ?c" by code_simp
  from poison_transitions [of ?rte router1_knows2 2 ?l ?c 10000000 2 2] a b c
  show ?thesis by simp
qed

subsection \<open>The triggered update\<close>

lemma modify_effects [simp]:
  "armed (modify k f r) = armed r" "sent (modify k f r) = sent r"
  "router_id (modify k f r) = router_id r" "outputs (modify k f r) = outputs r"
  "inputs (modify k f r) = inputs r" "log (modify k f r) = log r"
  "table_changed (modify k f r) = table_changed r" "end_life (modify k f r) = end_life r"
  by (simp_all add: modify_def)

lemma update_route_effects [simp]:
  "armed (update_route now k rte r) = armed r" "sent (update_route now k rte r) = sent r"
  "router_id (update_route now k rte r) = router_id r"
  "outputs (update_route now k rte r) = outputs r"
  "inputs (update_route now k rte r) = inputs r" "log (update_route now k rte r) = log r"
  "end_life (update_route now k rte r) = end_life r"
  by (simp_all add: update_route_def)

lemma update_rte_effects:
  "armed (flow_state (update_rte now h rte r)) = armed r \<and>
   sent (flow_state (update_rte now h rte r)) = sent r"
  by (simp add: update_rte_def Let_def split: option.splits header.splits)

lemma update_rtes_effects:
  "armed (state_of (update_rtes now h rs r)) = armed r \<and>
   sent (state_of (update_rtes now h rs r)) = sent r"
proof (induction rs arbitrary: r)
  case Nil
  then show ?case by simp
next
  case (Cons rte rs)
  show ?case
  proof (cases "update_rte now h rte r")
    case (Continue r')
    with update_rte_effects [of now h rte r] Cons.IH [of r'] show ?thesis by simp
  next
    case (Return r')
    with update_rte_effects [of now h rte r] show ?thesis by simp
  next
    case (Raise e r')
    with update_rte_effects [of now h rte r] show ?thesis by simp
  qed
qed

lemma update_routing_table_effects:
  "armed (state_of (update_routing_table now p r)) = armed r \<and>
   sent (state_of (update_routing_table now p r)) = sent r"
  by (simp add: update_routing_table_def update_rtes_effects split: option.splits)

lemma receive_all_effects:
  "armed (state_of (receive_all ports r)) = armed r \<and>
   sent (state_of (receive_all ports r)) = sent r"
proof (induction ports arbitrary: r)
  case Nil
  then show ?case by simp
next
  case (Cons a ports)
  obtain now d where a: "a = (now, d)" by (cases a)
  show ?case
  proof (cases "Packet_init now (Some d) None None")
    case (Inl e)
    with a show ?thesis by simp
  next
    case (Inr p)
    note p = this
    show ?thesis
    proof (cases "update_routing_table now p r")
      case (Inl x)
      with update_routing_table_effects [of now p r] a p show ?thesis
        by (cases x) simp
    next
      case (Inr r')
      with update_routing_table_effects [of now p r] Cons.IH [of r'] a p show ?thesis
        by simp
    qed
  qed
qed

lemma log_routing_table_effects:
  "armed (state_of (log_routing_table r)) = armed r \<and>
   sent (state_of (log_routing_table r)) = sent r"
  by (simp add: log_routing_table_def split: option.splits)

lemma handle_inputs_effects:
  "armed (state_of (handle_inputs ports r)) = armed r \<and>
   sent (state_of (handle_inputs ports r)) = sent r"
proof (cases "receive_all ports r")
  case (Inl x)
  with receive_all_effects [of ports r] show ?thesis
    by (cases x) (simp add: handle_inputs_def)
next
  case (Inr r1)
  note r1 = this
  show ?thesis
  proof (cases "table_changed r1")
    case False
    with r1 receive_all_effects [of ports r] show ?thesis by (simp add: handle_inputs_def)
  next
    case True
    show ?thesis
    proof (cases "log_routing_table r1")
      case (Inl x)
      with True r1 receive_all_effects [of ports r] log_routing_table_effects [of r1]
      show ?thesis by (cases x) (simp add: handle_inputs_def)
    next
      case (Inr r2)
      with True r1 receive_all_effects [of ports r] log_routing_table_effects [of r1]
      show ?thesis by (simp add: handle_inputs_def split: prod.splits)
    qed
  qed
qed

text \<open>
  C1.  The claim is that a receive that changes the table is followed by a triggered
  update.  \<open>handle_inputs\<close> builds the timer for it and never starts it: no call of
  \<open>handle_inputs\<close> arms a timer or sends a datagram.  At router 1, the receive of the
  self-entry of router 2 inserts the route, logs the table (the row of the new entry
  shows the change flag), clears the flag, and leaves the lists of armed timers and of
  sent datagrams empty.
\<close>

theorem triggered_update_never_armed:
  "armed (state_of (handle_inputs ports r)) = armed r \<and>
   sent (state_of (handle_inputs ports r)) = sent r \<and>
   handle_inputs
     [(3000000, [2, 2, 0, 2, 0, 2, 0, 0, 0, 0, 0, 2, 0, 0, 0, 0, 0, 0, 0, 0, 0, 0, 0, 0])]
     router1 = Inr router1_knows2 \<and>
   routing_table router1_knows2 =
     routing_table router1 @
       [(2, \<lparr>afi = 2, tag = 0, addr = 2, mask = 0, next_hop = 2, metric = 1,
              changed = False, imported = False, timeout = Some 3000000,
              is_garbage = False\<rparr>)] \<and>
   log router1_knows2 = log router1 @ [[(1, 0, 0, False, False), (2, 1, 2, True, False)]] \<and>
   armed router1_knows2 = [] \<and> sent router1_knows2 = []"
proof -
  have "handle_inputs
     [(3000000, [2, 2, 0, 2, 0, 2, 0, 0, 0, 0, 0, 2, 0, 0, 0, 0, 0, 0, 0, 0, 0, 0, 0, 0])]
     router1 = Inr router1_knows2 \<and>
   routing_table router1_knows2 =
     routing_table router1 @
       [(2, \<lparr>afi = 2, tag = 0, addr = 2, mask = 0, next_hop = 2, metric = 1,
              changed = False, imported = False, timeout = Some 3000000,
              is_garbage = False\<rparr>)] \<and>
   log router1_knows2 = log router1 @ [[(1, 0, 0, False, False), (2, 1, 2, True, False)]] \<and>
   armed router1_knows2 = [] \<and> sent router1_knows2 = []"
    by code_simp
  with handle_inputs_effects [of ports r] show ?thesis by blast
qed

section \<open>The self-entry\<close>

subsection \<open>Well-formed tables\<close>

lemma wf_count:
  "distinct (map fst t) \<Longrightarrow> list_all (\<lambda>(k, e). addr e = k) t \<Longrightarrow>
   length (filter (\<lambda>(k, e). addr e = x) t) = (if map_of t x = None then 0 else 1)"
proof (induction t)
  case Nil
  then show ?case by simp
next
  case (Cons a t)
  obtain k e where a: "a = (k, e)" by (cases a)
  with Cons.prems have ke: "addr e = k" and d: "k \<notin> fst ` set t"
    and d': "distinct (map fst t)" and l: "list_all (\<lambda>(k, e). addr e = k) t"
    by auto
  from d have n: "map_of t k = None" by (simp add: map_of_eq_None_iff)
  show ?case
  proof (cases "k = x")
    case True
    with Cons.IH [OF d' l] n ke a show ?thesis by simp
  next
    case False
    with Cons.IH [OF d' l] ke a show ?thesis by simp
  qed
qed

lemma map_of_wf_addr:
  "list_all (\<lambda>(k, e). addr e = k) t \<Longrightarrow> map_of t x = Some e \<Longrightarrow> addr e = x"
  by (induction t) (auto split: if_splits)

lemma holds_self_imp:
  assumes "holds_self own r" "next_hop own = 0" "metric own = 0" "imported own"
  shows "self_entry_ok r"
proof -
  from assms(1) have wf: "distinct (map fst (routing_table r))"
    "list_all (\<lambda>(k, e). addr e = k) (routing_table r)"
    and m: "map_of (routing_table r) (router_id r) = Some own"
    and p: "\<not> changed own" "\<not> is_garbage own" "timeout own = None"
    by (simp_all add: holds_self_def table_wf_def)
  from wf_count [OF wf, of "router_id r"] m
  have "length (filter (\<lambda>(k, e). addr e = router_id r) (routing_table r)) = 1" by simp
  moreover from map_of_wf_addr [OF wf(2) m] have "addr own = router_id r" .
  ultimately show ?thesis using m p assms(2-4) by (simp add: self_entry_ok_def)
qed

lemma self_entry_ok_holds:
  assumes "table_wf r" "self_entry_ok r"
  shows "\<exists>own. holds_self own r \<and> next_hop own = 0 \<and> metric own = 0 \<and> imported own"
  using assms by (auto simp: self_entry_ok_def holds_self_def split: option.splits)

lemma holds_self_cong:
  "routing_table r' = routing_table r \<Longrightarrow> router_id r' = router_id r \<Longrightarrow>
   holds_self own r' = holds_self own r"
  by (simp add: holds_self_def table_wf_def)

lemma map_fst_modified:
  "map (fst \<circ> (\<lambda>(k', e). if k' = k then (k', f e) else (k', e))) t = map fst t"
  by (induction t) auto

lemma list_all_modified:
  "list_all (\<lambda>(k, e). addr e = k) t \<Longrightarrow> (\<And>e. addr (f e) = addr e) \<Longrightarrow>
   list_all (\<lambda>(k, e). addr e = k) (map (\<lambda>(k', e). if k' = k then (k', f e) else (k', e)) t)"
  by (induction t) (auto split: if_splits)

lemma holds_self_modify:
  assumes "holds_self own r" "k \<noteq> router_id r" "\<And>e. addr (f e) = addr e"
  shows "holds_self own (modify k f r)"
  using assms
  by (simp add: holds_self_def table_wf_def modify_def map_fst_modified list_all_modified
      map_of_modified)

lemma list_all_update:
  "list_all P t \<Longrightarrow> P (k, v) \<Longrightarrow> list_all P (AList.update k v t)"
  by (induction t) auto

lemma holds_self_insert:
  assumes "holds_self own r" "k \<noteq> router_id r" "addr e = k"
  shows "holds_self own (r\<lparr>table_changed := b, routing_table := AList.update k e (routing_table r)\<rparr>)"
  using assms
  by (simp add: holds_self_def table_wf_def distinct_update update_conv' list_all_update)

lemma list_all_delete:
  "list_all P t \<Longrightarrow> list_all P (AList.delete k t)"
  by (induction t) auto

lemma holds_self_delete:
  assumes "holds_self own r" "k \<noteq> router_id r"
  shows "holds_self own (r\<lparr>routing_table := AList.delete k (routing_table r)\<rparr>)"
  using assms
  by (simp add: holds_self_def table_wf_def distinct_delete delete_conv' list_all_delete)

lemma holds_self_fields [simp]:
  "holds_self own (r\<lparr>table_changed := b\<rparr>) = holds_self own r"
  "holds_self own (r\<lparr>log := lg\<rparr>) = holds_self own r"
  "holds_self own (r\<lparr>sent := sn\<rparr>) = holds_self own r"
  "holds_self own (r\<lparr>armed := ar\<rparr>) = holds_self own r"
  by (simp_all add: holds_self_def table_wf_def)

lemma addr_init_timeout [simp]: "addr (init_timeout now e) = addr e"
  by (simp add: init_timeout_def)

lemma holds_self_update_route:
  assumes "holds_self own r" "k \<noteq> router_id r"
  shows "holds_self own (update_route now k rte r)"
  unfolding update_route_def using assms by (simp add: holds_self_modify)

lemma update_rte_holds_self:
  assumes "holds_self own r"
  shows "holds_self own (flow_state (update_rte now h rte r)) \<and>
         router_id (flow_state (update_rte now h rte r)) = router_id r"
proof (cases "addr rte = router_id r")
  case True
  with assms show ?thesis by (simp add: update_rte_def)
next
  case False
  then have k: "addr (set_next_hop s rte) \<noteq> router_id r" for s
    by (simp add: set_next_hop_def)
  have a: "addr (set_next_hop s rte) = addr rte" for s by (simp add: set_next_hop_def)
  from assms False show ?thesis
    by (simp add: update_rte_def Let_def a holds_self_insert holds_self_modify
        holds_self_update_route split: option.splits header.splits)
qed

subsection \<open>The receive path keeps the self-entry\<close>

lemma update_rtes_preserves:
  assumes step: "\<And>now h rte r. P r \<Longrightarrow> P (flow_state (update_rte now h rte r))"
  shows "P r \<Longrightarrow> P (state_of (update_rtes now h rs r))"
proof (induction rs arbitrary: r)
  case Nil
  then show ?case by simp
next
  case (Cons rte rs)
  from step [OF Cons.prems, of now h rte] have s: "P (flow_state (update_rte now h rte r))" .
  show ?case
  proof (cases "update_rte now h rte r")
    case (Continue r')
    with s Cons.IH [of r'] show ?thesis by simp
  next
    case (Return r')
    with s show ?thesis by simp
  next
    case (Raise e r')
    with s show ?thesis by simp
  qed
qed

lemma receive_all_preserves:
  assumes step: "\<And>now h rte r. P r \<Longrightarrow> P (flow_state (update_rte now h rte r))"
  shows "P r \<Longrightarrow> P (state_of (receive_all ports r))"
proof (induction ports arbitrary: r)
  case Nil
  then show ?case by simp
next
  case (Cons a ports)
  obtain now d where a: "a = (now, d)" by (cases a)
  show ?case
  proof (cases "Packet_init now (Some d) None None")
    case (Inl e)
    with a Cons.prems show ?thesis by simp
  next
    case (Inr p)
    note p = this
    have u: "P (state_of (update_routing_table now p r))"
      using update_rtes_preserves [of P, OF step Cons.prems] Cons.prems
      by (simp add: update_routing_table_def split: option.splits)
    show ?thesis
    proof (cases "update_routing_table now p r")
      case (Inl x)
      with u a p show ?thesis by (cases x) simp
    next
      case (Inr r')
      with u Cons.IH [of r'] a p show ?thesis by simp
    qed
  qed
qed

lemma log_routing_table_table:
  "routing_table (state_of (log_routing_table r)) = routing_table r \<and>
   router_id (state_of (log_routing_table r)) = router_id r"
  by (simp add: log_routing_table_def split: option.splits)

lemma log_routing_table_holds_self:
  "holds_self own (state_of (log_routing_table r)) = holds_self own r"
  by (rule holds_self_cong) (simp_all add: log_routing_table_table)

lemma map_of_cleared:
  "map_of (map (\<lambda>(k, e). if changed e then (k, e\<lparr>changed := False\<rparr>) else (k, e)) t) x =
     map_option (\<lambda>e. if changed e then e\<lparr>changed := False\<rparr> else e) (map_of t x)"
  by (induction t) auto

lemma map_fst_cleared:
  "map (fst \<circ> (\<lambda>(k, e). if changed e then (k, e\<lparr>changed := False\<rparr>) else (k, e))) t = map fst t"
  by (induction t) auto

lemma list_all_cleared:
  "list_all (\<lambda>(k, e). addr e = k) t \<Longrightarrow>
   list_all (\<lambda>(k, e). addr e = k)
     (map (\<lambda>(k, e). if changed e then (k, e\<lparr>changed := False\<rparr>) else (k, e)) t)"
  by (induction t) (auto split: if_splits)

lemma holds_self_collect_changed:
  assumes "holds_self own r"
  shows "holds_self own
     (r\<lparr>routing_table := snd (collect_changed (routing_table r)), table_changed := b\<rparr>)"
  using assms
  by (simp add: holds_self_def table_wf_def collect_changed_def map_of_cleared map_fst_cleared
      list_all_cleared)

lemma handle_inputs_holds_self:
  assumes "holds_self own r"
  shows "holds_self own (state_of (handle_inputs ports r)) \<and>
         router_id (state_of (handle_inputs ports r)) = router_id r"
proof -
  let ?P = "\<lambda>r'. holds_self own r' \<and> router_id r' = router_id r"
  have step: "?P (flow_state (update_rte now h rte r'))" if "?P r'" for now h rte r'
    using that update_rte_holds_self [of own r' now h rte] by simp
  from assms have "?P r" by simp
  from receive_all_preserves [of ?P, OF step this]
  have ra: "?P (state_of (receive_all ports r))" .
  show ?thesis
  proof (cases "receive_all ports r")
    case (Inl x)
    with ra show ?thesis by (cases x) (simp add: handle_inputs_def)
  next
    case (Inr r1)
    with ra have r1: "holds_self own r1" "router_id r1 = router_id r" by simp_all
    show ?thesis
    proof (cases "table_changed r1")
      case False
      with Inr r1 show ?thesis by (simp add: handle_inputs_def)
    next
      case True
      note tc = this
      show ?thesis
      proof (cases "log_routing_table r1")
        case (Inl x)
        with tc \<open>receive_all ports r = Inr r1\<close> r1 log_routing_table_holds_self [of own r1]
          log_routing_table_table [of r1]
        show ?thesis by (cases x) (simp add: handle_inputs_def)
      next
        case (Inr r2)
        with r1 log_routing_table_holds_self [of own r1] log_routing_table_table [of r1]
        have r2: "holds_self own r2" "router_id r2 = router_id r" by simp_all
        from holds_self_collect_changed [OF r2(1), of False] r2(2)
        have "?P (r2\<lparr>routing_table := snd (collect_changed (routing_table r2)),
                     table_changed := False\<rparr>)" by simp
        with tc \<open>receive_all ports r = Inr r1\<close> Inr show ?thesis
          by (auto simp: handle_inputs_def split: prod.splits)
      qed
    qed
  qed
qed

subsection \<open>The timers keep the self-entry\<close>

lemma check_timeout_loop_holds_self:
  "holds_self own r \<Longrightarrow>
   holds_self own (state_of (check_timeout_loop now ks r)) \<and>
   router_id (state_of (check_timeout_loop now ks r)) = router_id r"
proof (induction ks arbitrary: r)
  case Nil
  then show ?case by simp
next
  case (Cons k ks)
  show ?case
  proof (cases "map_of (routing_table r) k")
    case None
    with Cons show ?thesis by simp
  next
    case (Some rte)
    note rte = this
    show ?thesis
    proof (cases "timeout rte \<noteq> None \<and> total_seconds_ge (now - the (timeout rte)) ROUTE_TIMEOUT")
      case False
      with rte Cons show ?thesis by auto
    next
      case True
      let ?f = "\<lambda>e. e\<lparr>is_garbage := True, changed := True, metric := MAX_METRIC, timeout := Some now\<rparr>"
      let ?r1 = "(modify k ?f r)\<lparr>table_changed := True\<rparr>"
      from True rte Cons.prems have "k \<noteq> router_id r"
        by (auto simp: holds_self_def)
      with Cons.prems have h1: "holds_self own ?r1" by (simp add: holds_self_modify)
      have i1: "router_id ?r1 = router_id r" by (simp add: modify_def)
      show ?thesis
      proof (cases "log_routing_table ?r1")
        case (Inl x)
        with True rte h1 i1 log_routing_table_holds_self [of own ?r1] log_routing_table_table [of ?r1]
        show ?thesis by (cases x) simp
      next
        case (Inr r2)
        with h1 i1 log_routing_table_holds_self [of own ?r1] log_routing_table_table [of ?r1]
        have "holds_self own r2" "router_id r2 = router_id r" by simp_all
        with Cons.IH [of r2] True rte Inr show ?thesis by simp
      qed
    qed
  qed
qed

lemma check_timeout_holds_self:
  "holds_self own r \<Longrightarrow>
   holds_self own (state_of (check_timeout now r)) \<and>
   router_id (state_of (check_timeout now r)) = router_id r"
  by (simp add: check_timeout_def check_timeout_loop_holds_self)

lemma to_delete_garbage:
  "to_delete now es = Inr ds \<Longrightarrow> d \<in> set ds \<Longrightarrow> \<exists>e\<in>set es. is_garbage e \<and> addr e = d"
proof (induction es arbitrary: ds)
  case Nil
  then show ?case by simp
next
  case (Cons e es)
  then show ?case
    by (auto split: if_splits option.splits sum.splits)
qed

lemma to_delete_not_self:
  assumes "holds_self own r" "to_delete now (map snd (routing_table r)) = Inr ds" "d \<in> set ds"
  shows "d \<noteq> router_id r"
proof
  assume d: "d = router_id r"
  from to_delete_garbage [OF assms(2,3)] obtain k e where
    ke: "(k, e) \<in> set (routing_table r)" "is_garbage e" "addr e = d" by auto
  from assms(1) have wf: "distinct (map fst (routing_table r))"
    "list_all (\<lambda>(k, e). addr e = k) (routing_table r)"
    and m: "map_of (routing_table r) (router_id r) = Some own" and g: "\<not> is_garbage own"
    by (simp_all add: holds_self_def table_wf_def)
  from wf(2) ke(1) have "addr e = k" by (auto simp: list_all_iff)
  with ke(3) d have "k = router_id r" by simp
  with ke(1) wf(1) have "map_of (routing_table r) (router_id r) = Some e" by simp
  with m g ke(2) show False by simp
qed

lemma delete_entries_holds_self:
  "holds_self own r \<Longrightarrow> \<forall>d\<in>set ds. d \<noteq> router_id r \<Longrightarrow>
   holds_self own (state_of (delete_entries ds r)) \<and>
   router_id (state_of (delete_entries ds r)) = router_id r"
proof (induction ds arbitrary: r)
  case Nil
  then show ?case by simp
next
  case (Cons d ds)
  let ?r1 = "r\<lparr>routing_table := AList.delete d (routing_table r)\<rparr>"
  from Cons.prems have "holds_self own ?r1" by (simp add: holds_self_delete)
  moreover from Cons.prems have "\<forall>d\<in>set ds. d \<noteq> router_id ?r1" by simp
  ultimately have "holds_self own (state_of (delete_entries ds ?r1)) \<and>
     router_id (state_of (delete_entries ds ?r1)) = router_id ?r1"
    by (rule Cons.IH)
  with Cons.prems show ?case by simp
qed

lemma check_is_garbage_holds_self:
  assumes "holds_self own r"
  shows "holds_self own (state_of (check_is_garbage now r)) \<and>
         router_id (state_of (check_is_garbage now r)) = router_id r"
proof (cases "routing_table r = []")
  case True
  with assms show ?thesis by (simp add: check_is_garbage_def)
next
  case False
  note ne = this
  show ?thesis
  proof (cases "to_delete now (map snd (routing_table r))")
    case (Inl e)
    with ne assms show ?thesis by (simp add: check_is_garbage_def)
  next
    case (Inr ds)
    with assms have "\<forall>d\<in>set ds. d \<noteq> router_id r" using to_delete_not_self by blast
    from delete_entries_holds_self [OF assms this]
    have d: "holds_self own (state_of (delete_entries ds r))"
      "router_id (state_of (delete_entries ds r)) = router_id r" by simp_all
    show ?thesis
    proof (cases "delete_entries ds r")
      case (Inl x)
      with d ne Inr show ?thesis by (cases x) (simp add: check_is_garbage_def)
    next
      case (Inr r')
      with d ne \<open>to_delete now (map snd (routing_table r)) = Inr ds\<close>
        log_routing_table_holds_self [of own r'] log_routing_table_table [of r']
      show ?thesis by (simp add: check_is_garbage_def)
    qed
  qed
qed

lemma send_outputs_table:
  "routing_table (state_of (send_outputs now h rs outs r)) = routing_table r \<and>
   router_id (state_of (send_outputs now h rs outs r)) = router_id r"
proof (induction outs arbitrary: r)
  case Nil
  then show ?case by simp
next
  case (Cons a outs)
  obtain n l where a: "a = (n, l)" by (cases a)
  show ?case
  proof (cases "Packet_init now None (Some h) (Some (validated_rtes now n rs))")
    case (Inl e)
    with a show ?thesis by simp
  next
    case (Inr p)
    with a Cons.IH show ?thesis by (simp split: sum.splits)
  qed
qed

lemma update_table:
  "routing_table (state_of (update now rs r)) = routing_table r \<and>
   router_id (state_of (update now rs r)) = router_id r"
  by (simp add: update_def send_outputs_table split: sum.splits)

lemma update_holds_self:
  "holds_self own (state_of (update now rs r)) = holds_self own r"
  by (rule holds_self_cong) (simp_all add: update_table)

lemma run_task_holds_self:
  assumes "holds_self own r"
  shows "holds_self own (state_of (run_task now f r)) \<and>
         router_id (state_of (run_task now f r)) = router_id r"
  using assms check_timeout_holds_self [of own r now] check_is_garbage_holds_self [of own r now]
    update_holds_self [of own now "map snd (routing_table r)" r]
    update_table [of now "map snd (routing_table r)" r]
  by (cases f) (simp_all add: run_task_def)

lemma timer_holds_self:
  assumes "holds_self own r"
  shows "holds_self own (state_of (timer now f r)) \<and>
         router_id (state_of (timer now f r)) = router_id r"
proof (cases "end_life r")
  case True
  with assms show ?thesis by (simp add: timer_def)
next
  case False
  show ?thesis
  proof (cases "run_task now f r")
    case (Inl x)
    with False run_task_holds_self [OF assms, of now f] show ?thesis
      by (cases x) (simp add: timer_def)
  next
    case (Inr r')
    with False run_task_holds_self [OF assms, of now f] show ?thesis
      by (simp add: timer_def start_def)
  qed
qed

lemma config_inputs_table:
  "routing_table (config_inputs ps r) = routing_table r \<and>
   router_id (config_inputs ps r) = router_id r"
  by (induction ps arbitrary: r) simp_all

lemma config_outputs_table:
  "routing_table (state_of (config_outputs os r)) = routing_table r \<and>
   router_id (state_of (config_outputs os r)) = router_id r"
  by (induction os arbitrary: r) simp_all

lemma Router_init_holds_self:
  assumes "Router_init now config = Inr r"
  shows "holds_self (RTE_host now (config_id config) 0 0 True) r \<and>
         router_id r = config_id config"
proof -
  let ?r0 = "\<lparr>router_id = config_id config, inputs = [], outputs = [], routing_table = [],
               table_changed = False, end_life = False, log = [], sent = [], armed = []\<rparr>"
  let ?r1 = "config_inputs (config_inputs_of config) ?r0"
  from assms obtain r2 where r2: "config_outputs (config_outputs_of config) ?r1 = Inr r2"
    and lg: "log_routing_table
               (r2\<lparr>routing_table :=
                    AList.update (router_id r2) (RTE_host now (router_id r2) 0 0 True)
                      (routing_table r2)\<rparr>) = Inr r"
    by (auto simp: Router_init_def Let_def split: sum.splits)
  from config_outputs_table [of "config_outputs_of config" ?r1] r2
    config_inputs_table [of "config_inputs_of config" ?r0]
  have t: "routing_table r2 = []" "router_id r2 = config_id config" by simp_all
  let ?own = "RTE_host now (config_id config) 0 0 True"
  let ?r3 = "r2\<lparr>routing_table :=
                    AList.update (router_id r2) (RTE_host now (router_id r2) 0 0 True)
                      (routing_table r2)\<rparr>"
  have "holds_self ?own ?r3"
    using t by (simp add: holds_self_def table_wf_def RTE_host_def RTE_from_host_def RTE_new_def
        init_timeout_def)
  with log_routing_table_holds_self [of ?own ?r3] log_routing_table_table [of ?r3] lg t
  show ?thesis by simp
qed

lemma holds_self_after:
  assumes "holds_self own r'" "router_id r' = router_id r" "holds_self own r"
    "next_hop own = 0" "metric own = 0" "imported own"
  shows "router_id r' = router_id r \<and> table_wf r' \<and> self_entry_ok r' \<and>
         map_of (routing_table r') (router_id r) = map_of (routing_table r) (router_id r)"
proof -
  from assms(1,4-6) have "self_entry_ok r'" by (rule holds_self_imp)
  moreover from assms(1) have "table_wf r'" by (simp add: holds_self_def)
  moreover from assms(1-3) have
    "map_of (routing_table r') (router_id r) = map_of (routing_table r) (router_id r)"
    by (simp add: holds_self_def)
  ultimately show ?thesis using assms(2) by simp
qed


text \<open>
  C5.  A router that \<open>Router.__init__\<close> has built has a well-formed table with the
  self-entry: exactly one entry whose \<open>addr\<close> is the router's id, with next hop 0,
  metric 0, imported, not marked changed, not garbage, without a timeout.  From a state
  with a well-formed table and the self-entry, every receive (\<open>handle_inputs\<close>), every
  timer tick (\<open>timer\<close> with the periodic update, \<open>check_timeout\<close> or
  \<open>check_is_garbage\<close>) and every call of \<open>update\<close> leaves a state, also when it
  raises, with the same router id, a well-formed table and the self-entry; the entry
  stored under the router's id is the same as before, so it is never changed and never
  deleted.
\<close>

theorem self_entry_invariant:
  "(Router_init now0 config = Inr r0 \<longrightarrow> table_wf r0 \<and> self_entry_ok r0) \<and>
   (table_wf r \<and> self_entry_ok r \<longrightarrow>
      (\<forall>r'\<in>{state_of (handle_inputs ports r), state_of (timer now f r),
              state_of (update now rs r)}.
         router_id r' = router_id r \<and> table_wf r' \<and> self_entry_ok r' \<and>
         map_of (routing_table r') (router_id r) = map_of (routing_table r) (router_id r)))"
proof (intro conjI impI)
  assume "Router_init now0 config = Inr r0"
  from Router_init_holds_self [OF this]
  have h: "holds_self (RTE_host now0 (config_id config) 0 0 True) r0" by simp
  then show "table_wf r0" by (simp add: holds_self_def)
  from h show "self_entry_ok r0"
    by (rule holds_self_imp)
      (simp_all add: RTE_host_def RTE_from_host_def RTE_new_def init_timeout_def)
next
  assume "table_wf r \<and> self_entry_ok r"
  then obtain own where own: "holds_self own r" "next_hop own = 0" "metric own = 0" "imported own"
    using self_entry_ok_holds by blast
  have 1: "router_id r' = router_id r \<and> table_wf r' \<and> self_entry_ok r' \<and>
         map_of (routing_table r') (router_id r) = map_of (routing_table r) (router_id r)"
    if "holds_self own r' \<and> router_id r' = router_id r" for r'
    using that own holds_self_after [of own r' r] by blast
  have a: "holds_self own (state_of (handle_inputs ports r)) \<and>
         router_id (state_of (handle_inputs ports r)) = router_id r"
    using own(1) by (rule handle_inputs_holds_self)
  have b: "holds_self own (state_of (timer now f r)) \<and>
         router_id (state_of (timer now f r)) = router_id r"
    using own(1) by (rule timer_holds_self)
  have c: "holds_self own (state_of (update now rs r)) \<and>
         router_id (state_of (update now rs r)) = router_id r"
    using own(1) by (simp add: update_holds_self update_table)
  from 1 [OF a] 1 [OF b] 1 [OF c]
  show "\<forall>r'\<in>{state_of (handle_inputs ports r), state_of (timer now f r),
              state_of (update now rs r)}.
         router_id r' = router_id r \<and> table_wf r' \<and> self_entry_ok r' \<and>
         map_of (routing_table r') (router_id r) = map_of (routing_table r) (router_id r)"
    by blast
qed


text \<open>
  The theorem at the construction of router 1, and at router 1 knowing router 2: for
  the receive of an unreachable report at 10 seconds, and for the tick of
  \<open>check_timeout\<close> at 40 seconds, which poisons the entry for 2 and leaves the
  self-entry alone.
\<close>

theorem self_entry_invariant_witness:
  "Router_init 0
     \<lparr>config_id = 1, config_inputs_of = [5001],
      config_outputs_of = [\<lparr>output_id = 2, output_port = 5002, output_metric = 1\<rparr>]\<rparr> =
     Inr router1 \<and>
   table_wf router1 \<and> self_entry_ok router1 \<and>
   table_wf router1_knows2 \<and> self_entry_ok router1_knows2 \<and>
   self_entry_ok (state_of (handle_inputs
     [(10000000, [2, 2, 0, 2, 0, 2, 0, 0, 0, 0, 0, 2, 0, 0, 0, 0, 0, 0, 0, 0, 0, 0, 0, 16])]
     router1_knows2)) \<and>
   self_entry_ok (state_of (timer 40000000 Check_timeout router1_knows2)) \<and>
   map_of (routing_table (state_of (timer 40000000 Check_timeout router1_knows2))) 1 =
     map_of (routing_table router1_knows2) 1 \<and>
   table_view (state_of (timer 40000000 Check_timeout router1_knows2)) =
     [(1, (1, 0, 0, False, False)), (2, (2, 16, 2, True, True))]"
proof -
  let ?cfg = "\<lparr>config_id = 1, config_inputs_of = [5001],
      config_outputs_of = [\<lparr>output_id = 2, output_port = 5002, output_metric = 1\<rparr>]\<rparr>"
  let ?ports = "[(10000000, [2, 2, 0, 2, 0, 2, 0, 0, 0, 0, 0, 2, 0, 0, 0, 0, 0, 0, 0, 0, 0, 0, 0, 16 :: byte])]"
  have i: "Router_init 0 ?cfg = Inr router1" by code_simp
  have w: "table_wf router1_knows2" by code_simp
  have s: "self_entry_ok router1_knows2" by code_simp
  have id: "router_id router1_knows2 = 1" by code_simp
  have v: "table_view (state_of (timer 40000000 Check_timeout router1_knows2)) =
     [(1, (1, 0, 0, False, False)), (2, (2, 16, 2, True, True))]" by code_simp
  note th = self_entry_invariant [of 0 ?cfg router1 router1_knows2 ?ports 40000000 Check_timeout "[]"]
  from th i have a: "table_wf router1 \<and> self_entry_ok router1" by blast
  from th w s have b: "\<forall>r'\<in>{state_of (handle_inputs ?ports router1_knows2),
              state_of (timer 40000000 Check_timeout router1_knows2),
              state_of (update 40000000 [] router1_knows2)}.
         router_id r' = router_id router1_knows2 \<and> table_wf r' \<and> self_entry_ok r' \<and>
         map_of (routing_table r') (router_id router1_knows2) =
           map_of (routing_table router1_knows2) (router_id router1_knows2)"
    by blast
  from b id have c: "self_entry_ok (state_of (handle_inputs ?ports router1_knows2))"
    "self_entry_ok (state_of (timer 40000000 Check_timeout router1_knows2))"
    "map_of (routing_table (state_of (timer 40000000 Check_timeout router1_knows2))) 1 =
     map_of (routing_table router1_knows2) 1"
    by simp_all
  from i a w s c v show ?thesis by blast
qed

section \<open>The fixed wire fields\<close>

subsection \<open>The receive path commutes with clearing the fixed fields\<close>

lemma clear_fixed_sel [simp]:
  "addr (clear_fixed e) = addr e" "metric (clear_fixed e) = metric e"
  "next_hop (clear_fixed e) = next_hop e" "changed (clear_fixed e) = changed e"
  "imported (clear_fixed e) = imported e" "timeout (clear_fixed e) = timeout e"
  "is_garbage (clear_fixed e) = is_garbage e"
  by (simp_all add: clear_fixed_def)

lemma clear_fixed_router_sel [simp]:
  "router_id (clear_fixed_router r) = router_id r" "outputs (clear_fixed_router r) = outputs r"
  "inputs (clear_fixed_router r) = inputs r"
  "table_changed (clear_fixed_router r) = table_changed r"
  "end_life (clear_fixed_router r) = end_life r" "log (clear_fixed_router r) = log r"
  "sent (clear_fixed_router r) = sent r" "armed (clear_fixed_router r) = armed r"
  "routing_table (clear_fixed_router r) =
     map (\<lambda>(k, e). (k, clear_fixed e)) (routing_table r)"
  by (simp_all add: clear_fixed_router_def)

lemma map_of_clear_fixed:
  "map_of (map (\<lambda>(k, e). (k, clear_fixed e)) t) x = map_option clear_fixed (map_of t x)"
  by (induction t) auto

lemma clear_fixed_update:
  "map (\<lambda>(k, e). (k, clear_fixed e)) (AList.update k v t) =
     AList.update k (clear_fixed v) (map (\<lambda>(k, e). (k, clear_fixed e)) t)"
  by (induction t) auto

lemma clear_fixed_modified:
  "(\<And>e. clear_fixed (f e) = f (clear_fixed e)) \<Longrightarrow>
   map ((\<lambda>(k, e). (k, clear_fixed e)) \<circ> (\<lambda>(k', e). if k' = k then (k', f e) else (k', e))) t =
   map ((\<lambda>(k', e). if k' = k then (k', f e) else (k', e)) \<circ> (\<lambda>(k, e). (k, clear_fixed e))) t"
  by (induction t) auto

lemma clear_fixed_modify:
  "(\<And>e. clear_fixed (f e) = f (clear_fixed e)) \<Longrightarrow>
   clear_fixed_router (modify k f r) = modify k f (clear_fixed_router r)"
  by (simp add: clear_fixed_router_def modify_def clear_fixed_modified)

lemma clear_fixed_router_table_changed:
  "clear_fixed_router (r\<lparr>table_changed := b\<rparr>) = (clear_fixed_router r)\<lparr>table_changed := b\<rparr>"
  by (simp add: clear_fixed_router_def)

lemma clear_fixed_routed:
  "clear_fixed ((init_timeout now e)\<lparr>is_garbage := g, changed := c, metric := m, next_hop := n\<rparr>) =
   (init_timeout now (clear_fixed e))\<lparr>is_garbage := g, changed := c, metric := m, next_hop := n\<rparr>"
  by (simp add: clear_fixed_def init_timeout_def)

lemma clear_fixed_update_route:
  "clear_fixed_router (update_route now k rte r) =
   update_route now k (clear_fixed rte) (clear_fixed_router r)"
  by (simp add: update_route_def clear_fixed_router_table_changed clear_fixed_modify
      clear_fixed_routed)

lemma clear_fixed_modify_poison:
  "clear_fixed_router
     (modify k (\<lambda>c. c\<lparr>metric := m, is_garbage := True, changed := True\<rparr>) r) =
   modify k (\<lambda>c. c\<lparr>metric := m, is_garbage := True, changed := True\<rparr>) (clear_fixed_router r)"
  by (rule clear_fixed_modify) (simp add: clear_fixed_def)

lemma clear_fixed_modify_init_timeout:
  "clear_fixed_router (modify k (init_timeout now) r) =
   modify k (init_timeout now) (clear_fixed_router r)"
  by (rule clear_fixed_modify) (simp add: clear_fixed_def init_timeout_def)

lemma clear_fixed_insert:
  "clear_fixed_router (r\<lparr>table_changed := b, routing_table := AList.update k v (routing_table r)\<rparr>) =
   (clear_fixed_router r)\<lparr>table_changed := b,
      routing_table := AList.update k (clear_fixed v) (routing_table (clear_fixed_router r))\<rparr>"
  by (simp add: clear_fixed_router_def clear_fixed_update)

lemma clear_fixed_arrival:
  "clear_fixed ((set_next_hop s rte)\<lparr>metric := m\<rparr>) = (set_next_hop s (clear_fixed rte))\<lparr>metric := m\<rparr>"
  "clear_fixed (e\<lparr>changed := c\<rparr>) = (clear_fixed e)\<lparr>changed := c\<rparr>"
  by (simp_all add: clear_fixed_def set_next_hop_def)

lemma set_next_hop_sel [simp]:
  "addr (set_next_hop s e) = addr e" "metric (set_next_hop s e) = metric e"
  "next_hop (set_next_hop s e) = s"
  by (simp_all add: set_next_hop_def)

lemma update_rte_clear_fixed:
  "clear_fixed_flow (update_rte now h rte r) =
   update_rte now (map_option clear_fixed_header h) (clear_fixed rte) (clear_fixed_router r)"
proof (cases "addr rte = router_id r")
  case True
  then show ?thesis by (simp add: update_rte_def)
next
  case False
  note ne = this
  show ?thesis
  proof (cases h)
    case None
    with ne show ?thesis by (simp add: update_rte_def)
  next
    case (Some hh)
    show ?thesis
    proof (cases hh)
      case Blank_header
      with Some ne show ?thesis by (simp add: update_rte_def)
    next
      case (Header c v s)
      note h = Some Header
      show ?thesis
      proof (cases "map_of (outputs r) s")
        case None
        with h ne show ?thesis by (simp add: update_rte_def)
      next
        case (Some l)
        note l = this
        show ?thesis
        proof (cases "map_of (routing_table r) (addr rte)")
          case None
          with h ne l show ?thesis
            by (simp add: update_rte_def Let_def map_of_clear_fixed clear_fixed_insert
                clear_fixed_arrival)
        next
          case (Some cur)
          with h ne l show ?thesis
            by (simp add: update_rte_def Let_def map_of_clear_fixed clear_fixed_modify_poison
                clear_fixed_modify_init_timeout clear_fixed_update_route clear_fixed_arrival
                clear_fixed_router_table_changed min_def)
        qed
      qed
    qed
  qed
qed

lemma update_rtes_clear_fixed:
  "clear_fixed_outcome (update_rtes now h rs r) =
   update_rtes now (map_option clear_fixed_header h) (map clear_fixed rs) (clear_fixed_router r)"
proof (induction rs arbitrary: r)
  case Nil
  then show ?case by simp
next
  case (Cons rte rs)
  have u: "update_rte now (map_option clear_fixed_header h) (clear_fixed rte) (clear_fixed_router r) =
    clear_fixed_flow (update_rte now h rte r)"
    by (simp add: update_rte_clear_fixed)
  show ?case
  proof (cases "update_rte now h rte r")
    case (Continue r')
    with u Cons.IH [of r'] show ?thesis by simp
  next
    case (Return r')
    with u show ?thesis by simp
  next
    case (Raise e r')
    with u show ?thesis by simp
  qed
qed

lemma update_routing_table_clear_fixed:
  "clear_fixed_outcome (update_routing_table now p r) =
   update_routing_table now (clear_fixed_packet p) (clear_fixed_router r)"
  by (simp add: update_routing_table_def clear_fixed_packet_def update_rtes_clear_fixed
      split: option.splits)

lemma row_of_clear_fixed [simp]: "row_of (clear_fixed e) = row_of e"
  by (simp add: row_of_def)

lemma rows_clear_fixed:
  "map (\<lambda>(k, e). row_of e) (filter (\<lambda>(k, e). k \<noteq> x) (map (\<lambda>(k, e). (k, clear_fixed e)) t)) =
   map (\<lambda>(k, e). row_of e) (filter (\<lambda>(k, e). k \<noteq> x) t)"
  by (induction t) auto

lemma log_routing_table_clear_fixed:
  "clear_fixed_outcome (log_routing_table r) = log_routing_table (clear_fixed_router r)"
proof (cases "map_of (routing_table r) (router_id r)")
  case None
  then show ?thesis by (simp add: log_routing_table_def map_of_clear_fixed)
next
  case (Some own)
  then show ?thesis
    by (simp add: log_routing_table_def map_of_clear_fixed rows_clear_fixed)
qed

lemma collect_changed_clear_fixed:
  "map ((\<lambda>(k, e). (k, clear_fixed e)) \<circ> (\<lambda>(k, e). if changed e then (k, e\<lparr>changed := False\<rparr>) else (k, e))) t =
   map ((\<lambda>(k, e). if changed e then (k, e\<lparr>changed := False\<rparr>) else (k, e)) \<circ> (\<lambda>(k, e). (k, clear_fixed e))) t"
  by (induction t) (auto simp: clear_fixed_def)

lemma clear_fixed_collected:
  "clear_fixed_router (r\<lparr>routing_table := snd (collect_changed (routing_table r)), table_changed := b\<rparr>) =
   (clear_fixed_router r)\<lparr>routing_table := snd (collect_changed (routing_table (clear_fixed_router r))),
      table_changed := b\<rparr>"
  by (simp add: clear_fixed_router_def collect_changed_def collect_changed_clear_fixed)

text \<open>\<open>handle_inputs\<close> with the unused timer object left out.\<close>

lemma handle_inputs_after:
  "handle_inputs ports r =
     (case receive_all ports r of
        Inl x \<Rightarrow> Inl x
      | Inr r1 \<Rightarrow>
          if table_changed r1 then
            (case log_routing_table r1 of
               Inl x \<Rightarrow> Inl x
             | Inr r2 \<Rightarrow>
                 Inr (r2\<lparr>routing_table := snd (collect_changed (routing_table r2)),
                        table_changed := False\<rparr>))
          else Inr r1)"
  by (simp add: handle_inputs_def split: sum.splits prod.splits)

lemma clear_fixed_outcome_cases:
  "clear_fixed_outcome a = clear_fixed_outcome b \<Longrightarrow>
   (\<exists>e s s'. a = Inl (e, s) \<and> b = Inl (e, s') \<and> clear_fixed_router s = clear_fixed_router s') \<or>
   (\<exists>s s'. a = Inr s \<and> b = Inr s' \<and> clear_fixed_router s = clear_fixed_router s')"
  by (cases a; cases b) auto

lemma log_routing_table_agree:
  assumes "clear_fixed_router r = clear_fixed_router r'"
  shows "clear_fixed_outcome (log_routing_table r) = clear_fixed_outcome (log_routing_table r')"
  using assms by (simp add: log_routing_table_clear_fixed)

lemma handle_inputs_agree:
  assumes "clear_fixed_outcome (receive_all ports r) = clear_fixed_outcome (receive_all ports' r')"
  shows "clear_fixed_outcome (handle_inputs ports r) = clear_fixed_outcome (handle_inputs ports' r')"
proof -
  from clear_fixed_outcome_cases [OF assms] show ?thesis
  proof (elim disjE exE conjE)
    fix e s s' assume "receive_all ports r = Inl (e, s)" "receive_all ports' r' = Inl (e, s')"
      "clear_fixed_router s = clear_fixed_router s'"
    then show ?thesis by (simp add: handle_inputs_after)
  next
    fix s s' assume a: "receive_all ports r = Inr s" "receive_all ports' r' = Inr s'"
      and c: "clear_fixed_router s = clear_fixed_router s'"
    from c have tc: "table_changed s = table_changed s'"
      by (metis clear_fixed_router_sel(4))
    show ?thesis
    proof (cases "table_changed s")
      case False
      with a c tc show ?thesis by (simp add: handle_inputs_after)
    next
      case True
      from clear_fixed_outcome_cases [OF log_routing_table_agree [OF c]] show ?thesis
      proof (elim disjE exE conjE)
        fix e t t' assume "log_routing_table s = Inl (e, t)" "log_routing_table s' = Inl (e, t')"
          "clear_fixed_router t = clear_fixed_router t'"
        with a True tc show ?thesis by (simp add: handle_inputs_after)
      next
        fix t t' assume l: "log_routing_table s = Inr t" "log_routing_table s' = Inr t'"
          and ct: "clear_fixed_router t = clear_fixed_router t'"
        have "clear_fixed_router (t\<lparr>routing_table := snd (collect_changed (routing_table t)),
                 table_changed := False\<rparr>) =
              clear_fixed_router (t'\<lparr>routing_table := snd (collect_changed (routing_table t')),
                 table_changed := False\<rparr>)"
          by (simp only: clear_fixed_collected ct)
        with a True tc l show ?thesis by (simp add: handle_inputs_after)
      qed
    qed
  qed
qed

lemma table_view_clear_fixed: "table_view (clear_fixed_router r) = table_view r"
  by (simp add: table_view_def clear_fixed_router_def case_prod_beta comp_def)

lemma state_of_clear_fixed:
  "state_of (clear_fixed_outcome a) = clear_fixed_router (state_of a)"
  by (cases a) auto

lemma table_view_agree:
  assumes "clear_fixed_outcome a = clear_fixed_outcome b"
  shows "table_view (state_of a) = table_view (state_of b)"
proof -
  have "table_view (state_of a) = table_view (state_of (clear_fixed_outcome a))"
    by (simp add: state_of_clear_fixed table_view_clear_fixed)
  also have "\<dots> = table_view (state_of (clear_fixed_outcome b))" using assms by simp
  also have "\<dots> = table_view (state_of b)"
    by (simp add: state_of_clear_fixed table_view_clear_fixed)
  finally show ?thesis .
qed

subsection \<open>Decoding reads the other bytes only\<close>

lemma differD:
  assumes "differ_in_fixed_fields_only d d'"
  shows "length d = length d'" "\<And>i. i < length d \<Longrightarrow> \<not> fixed_field_offset i \<Longrightarrow> d ! i = d' ! i"
  using assms by (auto simp: differ_in_fixed_fields_only_def list_all_iff)

lemma take_drop_agree:
  assumes "length d = length d'"
    and "\<And>i. a \<le> i \<Longrightarrow> i < a + n \<Longrightarrow> i < length d \<Longrightarrow> d ! i = d' ! i"
  shows "take n (drop a d) = take n (drop a d')"
proof (rule nth_equalityI)
  show "length (take n (drop a d)) = length (take n (drop a d'))"
    using assms(1) by simp
next
  fix i assume "i < length (take n (drop a d))"
  then have i: "i < n" "a + i < length d" by auto
  with assms(2) [of "a + i"] have "d ! (a + i) = d' ! (a + i)" by simp
  with i assms(1) show "take n (drop a d) ! i = take n (drop a d') ! i" by simp
qed

lemma slice_field:
  "o' + n \<le> 20 \<Longrightarrow> take n (drop o' (slice rte_start (rte_start + 20) d)) = take n (drop (rte_start + o') d)"
  by (simp add: slice_def drop_take add.commute)

lemma read_offsets:
  assumes "4 \<le> rte_start" "(rte_start - 4) mod 20 = 0" "rte_start \<le> i" "i < rte_start + 20"
    "(rte_start + 4 \<le> i \<and> i < rte_start + 8) \<or> rte_start + 12 \<le> i"
  shows "\<not> fixed_field_offset i"
proof -
  from assms(1,3,4) have "(i - 4) = (rte_start - 4) + (i - rte_start)" "i - rte_start < 20" by simp_all
  with assms(2) have "(i - 4) mod 20 = i - rte_start"
    by (metis add.commute add_cancel_right_right mod_add_left_eq mod_less)
  with assms show ?thesis by (auto simp: fixed_field_offset_def)
qed

lemma RTE_network_fields:
  assumes "length b = 20"
  shows "RTE_network now b s =
    Inr ((RTE_new now False)
      \<lparr>afi := be_int 0 (take 2 b), tag := be_int 0 (take 2 (drop 2 b)),
       addr := be_int 0 (take 4 (drop 4 b)), mask := be_int 0 (take 4 (drop 8 b)),
       next_hop := (if be_int 0 (take 4 (drop 12 b)) = 0 then s else be_int 0 (take 4 (drop 12 b))),
       metric := be_int 0 (take 4 (drop 16 b))\<rparr>)"
proof -
  from assms have "b \<noteq> []" by auto
  with assms show ?thesis
    by (simp add: RTE_network_def RTE_from_network_def struct_unpack_def RTE_FORMAT_def
        calcsize_def)
qed

lemma RTE_network_agree:
  assumes d: "differ_in_fixed_fields_only d d'"
    and b: "rte_start + 20 \<le> length d" "4 \<le> rte_start" "(rte_start - 4) mod 20 = 0"
  shows "\<exists>e e'. RTE_network now (slice rte_start (rte_start + 20) d) s = Inr e \<and>
           RTE_network now (slice rte_start (rte_start + 20) d') s = Inr e' \<and>
           clear_fixed e = clear_fixed e'"
proof -
  note l = differD(1) [OF d]
  have eq: "take n (drop (rte_start + o') d) = take n (drop (rte_start + o') d')"
    if "o' + n \<le> 20" "(4 \<le> o' \<and> o' + n \<le> 8) \<or> 12 \<le> o'" for o' n
  proof (rule take_drop_agree [OF l])
    fix i assume i: "rte_start + o' \<le> i" "i < rte_start + o' + n" "i < length d"
    with that b have "\<not> fixed_field_offset i"
      by (intro read_offsets [of rte_start]) auto
    with i show "d ! i = d' ! i" using differD(2) [OF d, of i] by simp
  qed
  have f: "take n (drop o' (slice rte_start (rte_start + 20) d)) =
           take n (drop o' (slice rte_start (rte_start + 20) d'))"
    if "o' + n \<le> 20" "(4 \<le> o' \<and> o' + n \<le> 8) \<or> 12 \<le> o'" for o' n
    using that eq [of o' n] by (simp add: slice_field)
  have len: "length (slice rte_start (rte_start + 20) d) = 20" "length (slice rte_start (rte_start + 20) d') = 20"
    using b l by (simp_all add: length_slice)
  show ?thesis
    using f [of 4 4] f [of 12 4] f [of 16 4]
    by (simp add: RTE_network_fields [OF len(1)] RTE_network_fields [OF len(2)] clear_fixed_def)
qed

lemma parse_rtes_agree:
  assumes d: "differ_in_fixed_fields_only d d'"
  shows "rte_start + 20 * n \<le> length d \<Longrightarrow> 4 \<le> rte_start \<Longrightarrow> (rte_start - 4) mod 20 = 0 \<Longrightarrow>
    \<exists>rs rs'. parse_rtes now d s n rte_start = Inr rs \<and> parse_rtes now d' s n rte_start = Inr rs' \<and>
      map clear_fixed rs = map clear_fixed rs'"
proof (induction n arbitrary: rte_start)
  case 0
  then show ?case by simp
next
  case (Suc n)
  from Suc.prems have b: "rte_start + 20 \<le> length d" by simp
  from RTE_network_agree [OF d b Suc.prems(2,3), of now s] obtain e e' where
    e: "RTE_network now (slice rte_start (rte_start + 20) d) s = Inr e"
       "RTE_network now (slice rte_start (rte_start + 20) d') s = Inr e'"
       "clear_fixed e = clear_fixed e'" by blast
  from Suc.prems have n1: "(rte_start + 20) + 20 * n \<le> length d" and n2: "4 \<le> rte_start + 20"
    by simp_all
  from Suc.prems have n3: "(rte_start + 20 - 4) mod 20 = 0" by presburger
  from Suc.IH [OF n1 n2 n3] obtain rs rs' where
    "parse_rtes now d s n (rte_start + 20) = Inr rs" "parse_rtes now d' s n (rte_start + 20) = Inr rs'"
    "map clear_fixed rs = map clear_fixed rs'" by blast
  with e show ?case by (simp add: sizes)
qed

lemma Header_fields:
  assumes "length b = 4"
  shows "Header_init (Some b) None =
    Inr (Header (be_int 0 (take 1 b)) (be_int 0 (take 1 (drop 1 b))) (be_int 0 (take 2 (drop 2 b))))"
proof -
  from assms have "b \<noteq> []" by auto
  with assms show ?thesis
    by (simp add: Header_init_def Header_from_network_def struct_unpack_def HEADER_FORMAT_def
        calcsize_def numeral_2_eq_2)
qed

lemma decode_agree:
  assumes d: "differ_in_fixed_fields_only d d'"
  shows "map_sum id clear_fixed_packet (Packet_init now (Some d) None None) =
         map_sum id clear_fixed_packet (Packet_init now (Some d') None None)"
proof -
  note l = differD(1) [OF d]
  consider "d = []" | "0 < length d" "length d < 4" | "4 \<le> length d" by fastforce
  then show ?thesis
  proof cases
    case 1
    with l show ?thesis by simp
  next
    case 2
    with l decode_fail [of d now] decode_fail [of d' now] show ?thesis by simp
  next
    case 3
    with l have ne: "d \<noteq> []" "d' \<noteq> []" by auto
    have s4: "slice 0 4 d = take 4 d" "slice 0 4 d' = take 4 d'" by (simp_all add: slice_def)
    have l4: "length (take 4 d) = 4" "length (take 4 d') = 4" using 3 l by simp_all
    have "take 2 (drop 2 d) = take 2 (drop 2 d')"
    proof (rule take_drop_agree [OF l])
      fix i :: nat assume i: "2 \<le> i" "i < 2 + 2" "i < length d"
      then have "\<not> fixed_field_offset i" by (auto simp: fixed_field_offset_def)
      with i show "d ! i = d' ! i" using differD(2) [OF d, of i] by simp
    qed
    then have src: "be_int 0 (take 2 (drop 2 (take 4 d))) = be_int 0 (take 2 (drop 2 (take 4 d')))"
      by (simp add: drop_take)
    have "4 + 20 * ((length d - 4) div 20) \<le> length d" using 3 by simp
    from parse_rtes_agree [OF d this, of now "be_int 0 (take 2 (drop 2 (take 4 d)))"]
    obtain rs rs' where
      p: "parse_rtes now d (be_int 0 (take 2 (drop 2 (take 4 d)))) ((length d - 4) div 20) 4 = Inr rs"
         "parse_rtes now d' (be_int 0 (take 2 (drop 2 (take 4 d)))) ((length d - 4) div 20) 4 = Inr rs'"
         "map clear_fixed rs = map clear_fixed rs'" by auto
    from p src l 3 ne show ?thesis
      by (simp add: Packet_init_def Packet_from_network_def sizes s4 Header_fields [OF l4(1)]
          Header_fields [OF l4(2)] rte_count_ge4 clear_fixed_packet_def)
  qed
qed

lemma update_routing_table_agree:
  assumes "clear_fixed_packet p = clear_fixed_packet p'" "clear_fixed_router r = clear_fixed_router r'"
  shows "clear_fixed_outcome (update_routing_table now p r) =
         clear_fixed_outcome (update_routing_table now p' r')"
  using assms by (simp add: update_routing_table_clear_fixed)

lemma map_sum_cases:
  "map_sum id f a = map_sum id f b \<Longrightarrow>
   (\<exists>e. a = Inl e \<and> b = Inl e) \<or> (\<exists>p p'. a = Inr p \<and> b = Inr p' \<and> f p = f p')"
  by (cases a; cases b) auto

lemma receive_all_agree:
  "list_all2 (\<lambda>(t, d) (t', d'). t = t' \<and> differ_in_fixed_fields_only d d') ports ports' \<Longrightarrow>
   clear_fixed_router r = clear_fixed_router r' \<Longrightarrow>
   clear_fixed_outcome (receive_all ports r) = clear_fixed_outcome (receive_all ports' r')"
proof (induction ports ports' arbitrary: r r' rule: list_all2_induct)
  case Nil
  then show ?case by simp
next
  case (Cons a ports b ports')
  obtain now d where a: "a = (now, d)" by (cases a)
  obtain now' d' where b: "b = (now', d')" by (cases b)
  from Cons.hyps(1) a b have n: "now' = now" and df: "differ_in_fixed_fields_only d d'" by simp_all
  from map_sum_cases [OF decode_agree [OF df, of now]] show ?case
  proof (elim disjE exE conjE)
    fix e assume "Packet_init now (Some d) None None = Inl e"
      "Packet_init now (Some d') None None = Inl e"
    with a b n Cons.prems show ?thesis by simp
  next
    fix p p' assume p: "Packet_init now (Some d) None None = Inr p"
      "Packet_init now (Some d') None None = Inr p'"
      and c: "clear_fixed_packet p = clear_fixed_packet p'"
    from clear_fixed_outcome_cases [OF update_routing_table_agree [OF c Cons.prems, of now]]
    show ?thesis
    proof (elim disjE exE conjE)
      fix e s s' assume "update_routing_table now p r = Inl (e, s)"
        "update_routing_table now p' r' = Inl (e, s')"
        "clear_fixed_router s = clear_fixed_router s'"
      with a b n p show ?thesis by simp
    next
      fix s s' assume u: "update_routing_table now p r = Inr s"
        "update_routing_table now p' r' = Inr s'"
        and cs: "clear_fixed_router s = clear_fixed_router s'"
      from Cons.IH [OF cs] a b n p u show ?thesis by simp
    qed
  qed
qed


text \<open>
  C10.  Let two datagrams have the same length and differ at most in the bytes of the
  fields \<open>cmd\<close> and \<open>ver\<close> of the header and \<open>afi\<close>, \<open>tag\<close> and \<open>mask\<close> of
  the RTEs.  Decoding raises for both or for neither.  Received by the same router at
  the same clock reading, they leave states that are equal up to the fields \<open>afi\<close>,
  \<open>tag\<close> and \<open>mask\<close> of the table entries, with the same exception if one is
  raised; in particular the two tables have the same destinations, in the same order,
  and for each destination the same metric, next hop, change flag and garbage flag.
\<close>

theorem fixed_fields_unread:
  "differ_in_fixed_fields_only d d' \<longrightarrow>
     ((\<exists>e. Packet_init now (Some d) None None = Inl e) \<longleftrightarrow>
      (\<exists>e. Packet_init now (Some d') None None = Inl e)) \<and>
     clear_fixed_outcome (handle_inputs [(now, d)] r) =
       clear_fixed_outcome (handle_inputs [(now, d')] r) \<and>
     table_view (state_of (handle_inputs [(now, d)] r)) =
       table_view (state_of (handle_inputs [(now, d')] r))"
proof (intro impI conjI)
  assume df: "differ_in_fixed_fields_only d d'"
  from map_sum_cases [OF decode_agree [OF df, of now]]
  show "(\<exists>e. Packet_init now (Some d) None None = Inl e) \<longleftrightarrow>
      (\<exists>e. Packet_init now (Some d') None None = Inl e)" by auto
  from df have "list_all2 (\<lambda>(t, d) (t', d'). t = t' \<and> differ_in_fixed_fields_only d d')
     [(now, d)] [(now, d')]" by simp
  then have "clear_fixed_outcome (receive_all [(now, d)] r) =
     clear_fixed_outcome (receive_all [(now, d')] r)"
    by (rule receive_all_agree) simp
  then show h: "clear_fixed_outcome (handle_inputs [(now, d)] r) =
       clear_fixed_outcome (handle_inputs [(now, d')] r)"
    by (rule handle_inputs_agree)
  then show "table_view (state_of (handle_inputs [(now, d)] r)) =
       table_view (state_of (handle_inputs [(now, d')] r))"
    by (rule table_view_agree)
qed


text \<open>
  The theorem at router 1 and the self-entry of router 2, sent once as the code builds
  it and once with \<open>cmd\<close> 9, \<open>ver\<close> 7, \<open>afi\<close> 5, \<open>tag\<close> 6 and a mask: the
  second table stores these values, and both tables show the same rows.
\<close>

theorem fixed_fields_unread_witness:
  "differ_in_fixed_fields_only
     [2, 2, 0, 2, 0, 2, 0, 0, 0, 0, 0, 2, 0, 0, 0, 0, 0, 0, 0, 0, 0, 0, 0, 0]
     [9, 7, 0, 2, 0, 5, 0, 6, 0, 0, 0, 2, 1, 2, 3, 4, 0, 0, 0, 0, 0, 0, 0, 0] \<and>
   routing_table (state_of (handle_inputs
     [(3000000, [9, 7, 0, 2, 0, 5, 0, 6, 0, 0, 0, 2, 1, 2, 3, 4, 0, 0, 0, 0, 0, 0, 0, 0])]
     router1)) =
     routing_table router1 @
       [(2, \<lparr>afi = 5, tag = 6, addr = 2, mask = 16909060, next_hop = 2, metric = 1,
              changed = False, imported = False, timeout = Some 3000000,
              is_garbage = False\<rparr>)] \<and>
   table_view (state_of (handle_inputs
     [(3000000, [2, 2, 0, 2, 0, 2, 0, 0, 0, 0, 0, 2, 0, 0, 0, 0, 0, 0, 0, 0, 0, 0, 0, 0])]
     router1)) =
     [(1, (1, 0, 0, False, False)), (2, (2, 1, 2, False, False))] \<and>
   table_view (state_of (handle_inputs
     [(3000000, [9, 7, 0, 2, 0, 5, 0, 6, 0, 0, 0, 2, 1, 2, 3, 4, 0, 0, 0, 0, 0, 0, 0, 0])]
     router1)) =
     [(1, (1, 0, 0, False, False)), (2, (2, 1, 2, False, False))]"
proof -
  let ?d = "[2, 2, 0, 2, 0, 2, 0, 0, 0, 0, 0, 2, 0, 0, 0, 0, 0, 0, 0, 0, 0, 0, 0, 0 :: byte]"
  let ?d' = "[9, 7, 0, 2, 0, 5, 0, 6, 0, 0, 0, 2, 1, 2, 3, 4, 0, 0, 0, 0, 0, 0, 0, 0 :: byte]"
  have a: "differ_in_fixed_fields_only ?d ?d'" by code_simp
  have b: "routing_table (state_of (handle_inputs [(3000000, ?d')] router1)) =
     routing_table router1 @
       [(2, \<lparr>afi = 5, tag = 6, addr = 2, mask = 16909060, next_hop = 2, metric = 1,
              changed = False, imported = False, timeout = Some 3000000,
              is_garbage = False\<rparr>)]" by code_simp
  have c: "table_view (state_of (handle_inputs [(3000000, ?d)] router1)) =
     [(1, (1, 0, 0, False, False)), (2, (2, 1, 2, False, False))]" by code_simp
  from fixed_fields_unread [of ?d ?d' 3000000 router1] a
  have "table_view (state_of (handle_inputs [(3000000, ?d)] router1)) =
        table_view (state_of (handle_inputs [(3000000, ?d')] router1))" by blast
  with a b c show ?thesis by simp
qed

end
